theory Spec2Isabelle
  imports Complex_Main "HOL-Library.Word"
begin

unbundle bit_operations_syntax

chapter \<open>Definitions: the program\<close>

section \<open>Numbers\<close>

text \<open>
  The shaders compute in \<open>f32\<close> and the JavaScript host in binary64. A value of either
  format is a \<open>jsnum\<close>: a real number (one the format represents), an infinity or NaN;
  the two zeros are not distinguished, nothing below divides by zero. The operations
  \<open>js_add\<close>, \<open>js_sub\<close>, \<open>js_mul\<close> and \<open>js_lt\<close> are those of IEEE 754 on the
  extended reals, before rounding.

  Rounding is modelled where a claim depends on it: in the matchers and in the descriptor
  clamp. Elsewhere (the DoG subtraction, the keypoint readback, the orientation histogram,
  the guided matcher's geometry) values are real numbers and the arithmetic is exact. Array
  indices and counts are natural numbers; the \<open>i32\<close> index of a match result is an
  integer, so that \<open>-1\<close> is a value of it.
\<close>

datatype jsnum = Num real | PosInf | NegInf | NaN

fun js_neg :: "jsnum \<Rightarrow> jsnum" where
  "js_neg (Num a) = Num (- a)"
| "js_neg PosInf = NegInf"
| "js_neg NegInf = PosInf"
| "js_neg NaN = NaN"

fun js_add :: "jsnum \<Rightarrow> jsnum \<Rightarrow> jsnum" where
  "js_add (Num a) (Num b) = Num (a + b)"
| "js_add NaN y = NaN"
| "js_add x NaN = NaN"
| "js_add PosInf NegInf = NaN"
| "js_add NegInf PosInf = NaN"
| "js_add PosInf y = PosInf"
| "js_add x PosInf = PosInf"
| "js_add NegInf y = NegInf"
| "js_add x NegInf = NegInf"

definition js_sub :: "jsnum \<Rightarrow> jsnum \<Rightarrow> jsnum" where
  "js_sub x y = js_add x (js_neg y)"

fun js_sign :: "jsnum \<Rightarrow> int" where
  "js_sign (Num a) = (if a > 0 then 1 else if a < 0 then - 1 else 0)"
| "js_sign PosInf = 1"
| "js_sign NegInf = - 1"
| "js_sign NaN = 0"

fun js_mul :: "jsnum \<Rightarrow> jsnum \<Rightarrow> jsnum" where
  "js_mul (Num a) (Num b) = Num (a * b)"
| "js_mul NaN y = NaN"
| "js_mul x NaN = NaN"
| "js_mul x y =
     (if js_sign x * js_sign y > 0 then PosInf
      else if js_sign x * js_sign y < 0 then NegInf else NaN)"



fun js_lt :: "jsnum \<Rightarrow> jsnum \<Rightarrow> bool" where
  "js_lt (Num a) (Num b) = (a < b)"
| "js_lt NaN y = False"
| "js_lt x NaN = False"
| "js_lt x NegInf = False"
| "js_lt PosInf y = False"
| "js_lt NegInf y = True"
| "js_lt x PosInf = True"



text \<open>
  Rounding to nearest, ties to even, into a binary format of precision \<open>p\<close> with
  exponents from \<open>emin\<close> to \<open>emax\<close>: \<open>binade x\<close> is the exponent of the power of two
  at or below \<open>|x|\<close>, the spacing of the format there is \<open>2^(e - p + 1)\<close> with \<open>e\<close> not
  below \<open>emin\<close> (subnormal numbers), and a result of magnitude \<open>2^(emax + 1)\<close> or more
  overflows to an infinity. \<open>f32\<close> is binary32 and \<open>f64\<close> binary64. An operation of
  either format rounds the exact result once; WGSL specifies \<open>+\<close>, \<open>-\<close> and \<open>*\<close> on
  \<open>f32\<close> as correctly rounded, and so does ECMAScript on Numbers.
\<close>

definition binade :: "real \<Rightarrow> int" where
  "binade x = \<lfloor>log 2 \<bar>x\<bar>\<rfloor>"

definition round_half_even :: "real \<Rightarrow> int" where
  "round_half_even v =
     (let f = \<lfloor>v\<rfloor>; r = v - of_int f
      in if r < 1 / 2 then f else if 1 / 2 < r then f + 1 else if even f then f else f + 1)"

definition fl_round :: "nat \<Rightarrow> int \<Rightarrow> int \<Rightarrow> real \<Rightarrow> jsnum" where
  "fl_round p emin emax x =
     (let e = max (binade x) emin;
          ulp = 2 powi (e - int p + 1);
          y = of_int (round_half_even (x / ulp)) * ulp
      in if 2 powi (emax + 1) \<le> \<bar>y\<bar> then (if 0 < x then PosInf else NegInf) else Num y)"

definition f32 :: "real \<Rightarrow> jsnum" where
  "f32 = fl_round 24 (- 126) 127"

definition f64 :: "real \<Rightarrow> jsnum" where
  "f64 = fl_round 53 (- 1022) 1023"

definition rounded :: "(real \<Rightarrow> jsnum) \<Rightarrow> jsnum \<Rightarrow> jsnum" where
  "rounded rnd v = (case v of Num x \<Rightarrow> rnd x | PosInf \<Rightarrow> PosInf | NegInf \<Rightarrow> NegInf | NaN \<Rightarrow> NaN)"

definition f32_add :: "jsnum \<Rightarrow> jsnum \<Rightarrow> jsnum" where
  "f32_add a b = rounded f32 (js_add a b)"

definition f32_sub :: "jsnum \<Rightarrow> jsnum \<Rightarrow> jsnum" where
  "f32_sub a b = rounded f32 (js_sub a b)"

definition f32_mul :: "jsnum \<Rightarrow> jsnum \<Rightarrow> jsnum" where
  "f32_mul a b = rounded f32 (js_mul a b)"



definition f64_add :: "jsnum \<Rightarrow> jsnum \<Rightarrow> jsnum" where
  "f64_add a b = rounded f64 (js_add a b)"

definition f64_sub :: "jsnum \<Rightarrow> jsnum \<Rightarrow> jsnum" where
  "f64_sub a b = rounded f64 (js_sub a b)"

definition f64_mul :: "jsnum \<Rightarrow> jsnum \<Rightarrow> jsnum" where
  "f64_mul a b = rounded f64 (js_mul a b)"



text \<open>A value that is not negative: a real \<open>0 \<le> x\<close>, \<open>+Infinity\<close> or NaN.\<close>

definition not_negative :: "jsnum \<Rightarrow> bool" where
  "not_negative v = (case v of Num x \<Rightarrow> 0 \<le> x | PosInf \<Rightarrow> True | NegInf \<Rightarrow> False | NaN \<Rightarrow> True)"


section \<open>Shader constants\<close>

text \<open>
  Modelled from the spec: the constants of \<open>shaders/common/constants.wgsl\<close>, which every
  shader includes and which is not among the sources. The values are those the spec gives:
  descriptors of 128 dimensions, \<open>sigma_base = 1.6\<close>, \<open>S = 3\<close> scales per octave,
  \<open>B = 36\<close> orientation bins, the histogram quantum \<open>2^10\<close>, a 4x4 descriptor grid of
  8 orientation bins, the descriptor weight \<open>exp(-(r^2 + c^2)/128)\<close>, and \<open>2 pi\<close>.
\<close>

definition DESC_DIM :: nat where
  "DESC_DIM = 128"

definition SIGMA_BASE :: real where
  "SIGMA_BASE = 16 / 10"

definition SCALES_PER_OCTAVE :: real where
  "SCALES_PER_OCTAVE = 3"



definition DESC_SUBGRID_SIZE :: nat where
  "DESC_SUBGRID_SIZE = 4"

definition DESC_BINS :: nat where
  "DESC_BINS = 8"

definition DESC_GAUSSIAN_WEIGHT_SIGMA_SQ :: real where
  "DESC_GAUSSIAN_WEIGHT_SIGMA_SQ = 128"

definition TWO_PI :: real where
  "TWO_PI = 2 * pi"

section \<open>Host errors and compute dispatches\<close>

text \<open>
  The exceptions of the JavaScript host that the models below can raise: the
  \<open>RangeError\<close> of a typed array or \<open>DataView\<close> reaching outside its buffer, and the
  \<open>Error("Invalid binary format")\<close> of the feature loader.

  A texel of an \<open>rgba32float\<close> texture is a \<open>vec4\<close>. Every compute pass is dispatched
  as \<open>Math.ceil(w / 16)\<close> by \<open>Math.ceil(h / 16)\<close> workgroups of 16 x 16 invocations. The
  invocations of a dispatch are run one after the other, in workgroup order, which is one
  of the schedules the GPU may choose; the properties proved below (counts, and texels
  written by a single invocation each) do not depend on the schedule.
\<close>

datatype js_error = RangeError | InvalidBinaryFormat

type_synonym vec4 = "real \<times> real \<times> real \<times> real"

definition ceil_div :: "nat \<Rightarrow> nat \<Rightarrow> nat" where
  "ceil_div a b = (a + b - 1) div b"

definition workgroups :: "nat \<Rightarrow> nat \<Rightarrow> (nat \<times> nat) list" where
  "workgroups nx ny = concat (map (\<lambda>wy. map (\<lambda>wx. (wx, wy)) [0..<nx]) [0..<ny])"

definition workgroup_threads :: "nat \<times> nat \<Rightarrow> (int \<times> int) list" where
  "workgroup_threads wid =
     (case wid of (wx, wy) \<Rightarrow>
        map (\<lambda>lid. (int (wx * 16 + lid mod 16), int (wy * 16 + lid div 16))) [0..<256])"

section \<open>The Difference-of-Gaussians pyramid\<close>

text \<open>
  The DoG shader \<open>dog.wgsl\<close> and its driver \<open>runDoG\<close>, with the loop of the pyramid
  builder that calls it, \<open>runDoG(enc, gaussOctave[s], gaussOctave[s + 1], dogOctave[s], w, h)\<close>
  for every \<open>s\<close>. A texture is its two dimensions and its texels; \<open>textureLoad\<close> outside
  the texture yields zero and \<open>textureStore\<close> outside the texture is dropped, as WGSL
  specifies. \<open>computeDoG_cpu\<close> is the loop of the CPU reference \<open>computeDoGPyramid\<close> for
  one octave, on flat arrays of \<open>w * h\<close> floats.
\<close>

definition vec4_sub :: "vec4 \<Rightarrow> vec4 \<Rightarrow> vec4" where
  "vec4_sub a b =
     (case (a, b) of ((ax, ay, az, aw), (bx, by, bz, bw)) \<Rightarrow> (ax - bx, ay - by, az - bz, aw - bw))"

record texture =
  tex_width :: nat
  tex_height :: nat
  tex_data :: "nat \<Rightarrow> nat \<Rightarrow> vec4"

definition textureLoad :: "texture \<Rightarrow> nat \<Rightarrow> nat \<Rightarrow> vec4" where
  "textureLoad tex x y =
     (if x < tex_width tex \<and> y < tex_height tex then tex_data tex x y else (0, 0, 0, 0))"

definition textureStore :: "texture \<Rightarrow> nat \<Rightarrow> nat \<Rightarrow> vec4 \<Rightarrow> texture" where
  "textureStore tex x y v =
     (if x < tex_width tex \<and> y < tex_height tex
      then tex\<lparr>tex_data := (tex_data tex)(x := (tex_data tex x)(y := v))\<rparr>
      else tex)"

definition dog_main :: "texture \<Rightarrow> texture \<Rightarrow> texture \<Rightarrow> nat \<times> nat \<Rightarrow> texture" where
  "dog_main texA texB outputTex gid =
     (case gid of (gx, gy) \<Rightarrow>
        if gx \<ge> tex_width texA \<or> gy \<ge> tex_height texA then outputTex
        else
          let a = textureLoad texA gx gy;
              b = textureLoad texB gx gy
          in textureStore outputTex gx gy (vec4_sub a b))"

definition invocations :: "nat \<Rightarrow> nat \<Rightarrow> (nat \<times> nat) list" where
  "invocations nx ny = concat (map (\<lambda>y. map (\<lambda>x. (x, y)) [0..<16 * nx]) [0..<16 * ny])"

definition runDoG :: "texture \<Rightarrow> texture \<Rightarrow> texture \<Rightarrow> nat \<Rightarrow> nat \<Rightarrow> texture" where
  "runDoG texA texB outTex w h =
     fold (\<lambda>gid out. dog_main texA texB out gid) (invocations (ceil_div w 16) (ceil_div h 16)) outTex"

definition buildDoG :: "texture list \<Rightarrow> texture list \<Rightarrow> nat \<Rightarrow> nat \<Rightarrow> texture list" where
  "buildDoG gaussOctave dogOctave w h =
     map (\<lambda>s. runDoG (gaussOctave ! s) (gaussOctave ! (s + 1)) (dogOctave ! s) w h)
       [0..<length dogOctave]"

definition computeDoG_cpu :: "real list list \<Rightarrow> nat \<Rightarrow> nat \<Rightarrow> real list list" where
  "computeDoG_cpu gaussian w h =
     map (\<lambda>s. map (\<lambda>i. (gaussian ! (s + 1)) ! i - (gaussian ! s) ! i) [0..<w * h])
       [0..<length gaussian - 1]"

definition flat_texture :: "nat \<Rightarrow> nat \<Rightarrow> real \<Rightarrow> texture" where
  "flat_texture w h v = \<lparr>tex_width = w, tex_height = h, tex_data = (\<lambda>x y. (v, v, v, v))\<rparr>"

section \<open>Keypoints and their readback\<close>

text \<open>
  A keypoint is the \<open>Keypoint\<close> struct of \<open>structs.wgsl\<close> as the detection shaders fill
  it: eight floats, of which six are used. \<open>make_keypoint\<close> is the block of assignments
  that both extremum shaders run for an accepted pixel of the pass
  \<open>(params.octave, params.scale)\<close>. \<open>keypoint_floats\<close> is the layout of one struct in the
  storage buffer (32 bytes).

  \<open>processBitmap\<close> is the part of the driver that decides the downscale of the input and
  records \<open>scaleRestoreFactor\<close>; \<open>Math.round\<close> rounds half up.

  \<open>parse_keypoints\<close> is the loop shared by \<open>readbackKeypoints\<close> (default driver) and
  \<open>retrieveKeypoints\<close> (packed driver) that turns the floats read back into the returned
  objects. The two differ in how they obtain the floats. The packed driver views
  \<open>count * 8\<close> floats of the mapped staging copy of the whole buffer with
  \<open>new Float32Array(mapped, 16, count * 8)\<close>, which throws a \<open>RangeError\<close> when the view
  does not fit. The default driver copies \<open>count * 32\<close> bytes of the keypoint buffer into
  a fresh buffer of that size; a copy that reaches past the end of the source is a WebGPU
  validation error, the copy is not carried out, and the fresh buffer keeps its initial
  zeros.
\<close>

record Keypoint =
  gk_x :: real
  gk_y :: real
  gk_octave :: real
  gk_scale :: real
  gk_sigma :: real
  gk_orientation :: real

definition make_keypoint :: "int \<Rightarrow> int \<Rightarrow> int \<Rightarrow> int \<Rightarrow> Keypoint" where
  "make_keypoint px py params_octave params_scale =
     (let scaleMult = 2 powr (real_of_int params_octave) in
      \<lparr>gk_x = real_of_int px * scaleMult,
       gk_y = real_of_int py * scaleMult,
       gk_octave = real_of_int params_octave,
       gk_scale = real_of_int params_scale,
       gk_sigma = SIGMA_BASE * (2 powr (real_of_int params_scale / SCALES_PER_OCTAVE)) * scaleMult,
       gk_orientation = 0\<rparr>)"

definition js_round :: "real \<Rightarrow> int" where
  "js_round v = \<lfloor>v + 1 / 2\<rfloor>"

record processed_bitmap =
  pb_width :: int
  pb_height :: int
  pb_scaleRestoreFactor :: real

definition processBitmap :: "nat \<Rightarrow> nat \<Rightarrow> real \<Rightarrow> processed_bitmap" where
  "processBitmap originalWidth originalHeight maxDim =
     (if maxDim > 0 \<and> (real originalWidth > maxDim \<or> real originalHeight > maxDim)
      then
        let scl = min (maxDim / real originalWidth) (maxDim / real originalHeight);
            targetWidth = js_round (real originalWidth * scl);
            targetHeight = js_round (real originalHeight * scl)
        in \<lparr>pb_width = targetWidth, pb_height = targetHeight, pb_scaleRestoreFactor = 1 / scl\<rparr>
      else \<lparr>pb_width = int originalWidth, pb_height = int originalHeight,
             pb_scaleRestoreFactor = 1\<rparr>)"

definition keypoint_floats :: "Keypoint \<Rightarrow> real list" where
  "keypoint_floats kp =
     [gk_x kp, gk_y kp, gk_octave kp, gk_scale kp, gk_sigma kp, gk_orientation kp, 0, 0]"

definition parse_keypoints :: "real list \<Rightarrow> nat \<Rightarrow> real \<Rightarrow> Keypoint list" where
  "parse_keypoints kpData count factor =
     map (\<lambda>i. let off = i * 8 in
            \<lparr>gk_x = kpData ! (off + 0) * factor,
             gk_y = kpData ! (off + 1) * factor,
             gk_octave = kpData ! (off + 2),
             gk_scale = kpData ! (off + 3) * factor,
             gk_sigma = kpData ! (off + 4),
             gk_orientation = kpData ! (off + 5)\<rparr>) [0..<count]"

definition retrieveKeypoints :: "nat \<Rightarrow> real list \<Rightarrow> real \<Rightarrow> js_error + Keypoint list" where
  "retrieveKeypoints count staged factor =
     (if count > 0
      then if count * 8 > length staged then Inl RangeError
           else Inr (parse_keypoints (take (count * 8) staged) count factor)
      else Inr [])"

definition readbackKeypoints :: "nat \<Rightarrow> real list \<Rightarrow> real \<Rightarrow> Keypoint list" where
  "readbackKeypoints count points factor =
     (if count = 0 then []
      else
        let kpData = (if count * 8 \<le> length points then take (count * 8) points
                      else replicate (count * 8) 0)
        in parse_keypoints kpData count factor)"

section \<open>Extremum detection\<close>

text \<open>
  The keypoint append-buffer is the \<open>KeypointList\<close> of \<open>structs.wgsl\<close>: an atomic
  \<open>u32\<close> counter followed by the array of keypoints, whose length is the capacity
  \<open>maxKeypoints\<close> the driver allocated (\<open>16 + maxKeypoints * 32\<close> bytes).
  \<open>atomicAdd\<close> returns the old value and adds modulo \<open>2^32\<close>. A store to
  \<open>keypoints.points[idx]\<close> with \<open>idx\<close> outside the array is dropped: the buffer is bound
  whole, and an out-of-bounds write to a runtime-sized array never reaches memory outside
  the binding (the model takes the behaviour that leaves the buffer unchanged; no
  property below depends on what the array holds).

  A DoG texture is the function from texel coordinates to the value \<open>getVal\<close> loads
  there; what a load outside the texture yields is part of that function.
\<close>

record ExtremaParams =
  ep_width :: int
  ep_height :: int
  ep_octave :: int
  ep_scale :: int
  ep_threshold :: real
  ep_edgeThreshold :: real

record KeypointList =
  kl_count :: "32 word"
  kl_points :: "Keypoint list"

definition atomicAdd_count :: "KeypointList \<Rightarrow> 32 word \<Rightarrow> 32 word \<times> KeypointList" where
  "atomicAdd_count kl n = (kl_count kl, kl\<lparr>kl_count := kl_count kl + n\<rparr>)"

definition store_point :: "KeypointList \<Rightarrow> 32 word \<Rightarrow> Keypoint \<Rightarrow> KeypointList" where
  "store_point kl idx kp =
     (if unat idx < length (kl_points kl)
      then kl\<lparr>kl_points := (kl_points kl)[unat idx := kp]\<rparr> else kl)"

definition neighbourhood :: "(int \<times> int \<times> int) list" where
  "neighbourhood =
     concat (map (\<lambda>vz. concat (map (\<lambda>vy. map (\<lambda>vx. (vz, vy, vx)) [- 1, 0, 1]) [- 1, 0, 1]))
       [- 1, 0, 1])"

definition extremum_flags ::
  "(int \<Rightarrow> int \<Rightarrow> real) \<Rightarrow> (int \<Rightarrow> int \<Rightarrow> real) \<Rightarrow> (int \<Rightarrow> int \<Rightarrow> real) \<Rightarrow> int \<Rightarrow> int \<Rightarrow> real
   \<Rightarrow> bool \<times> bool" where
  "extremum_flags prevVal currVal nextVal px py val =
     fold (\<lambda>(vz, vy, vx) (isMax, isMin).
             if vx = 0 \<and> vy = 0 \<and> vz = 0 then (isMax, isMin)
             else
               let neighborVal =
                     (if vz = - 1 then prevVal (px + vx) (py + vy)
                      else if vz = 0 then currVal (px + vx) (py + vy)
                      else nextVal (px + vx) (py + vy))
               in (if neighborVal \<ge> val then False else isMax,
                   if neighborVal \<le> val then False else isMin))
       neighbourhood (True, True)"

definition edge_test :: "(int \<Rightarrow> int \<Rightarrow> real) \<Rightarrow> int \<Rightarrow> int \<Rightarrow> real \<Rightarrow> real \<Rightarrow> bool" where
  "edge_test currVal px py val r =
     (let dxx = currVal (px + 1) py + currVal (px - 1) py - 2 * val;
          dyy = currVal px (py + 1) + currVal px (py - 1) - 2 * val;
          dxy = (currVal (px + 1) (py + 1) - currVal (px + 1) (py - 1)
                 - currVal (px - 1) (py + 1) + currVal (px - 1) (py - 1)) * (25 / 100);
          tr = dxx + dyy;
          det = dxx * dyy - dxy * dxy
      in det > 0 \<and> tr * tr * r < (r + 1) * (r + 1) * det)"

definition passes_tests ::
  "ExtremaParams \<Rightarrow> (int \<Rightarrow> int \<Rightarrow> real) \<Rightarrow> (int \<Rightarrow> int \<Rightarrow> real) \<Rightarrow> (int \<Rightarrow> int \<Rightarrow> real)
   \<Rightarrow> int \<Rightarrow> int \<Rightarrow> bool" where
  "passes_tests params prevVal currVal nextVal px py =
     (let val = currVal px py in
      if \<bar>val\<bar> \<ge> ep_threshold params
      then
        (case extremum_flags prevVal currVal nextVal px py val of (isMax, isMin) \<Rightarrow>
           if isMax \<or> isMin then edge_test currVal px py val (ep_edgeThreshold params)
           else False)
      else False)"

definition isFeature ::
  "ExtremaParams \<Rightarrow> (int \<Rightarrow> int \<Rightarrow> real) \<Rightarrow> (int \<Rightarrow> int \<Rightarrow> real) \<Rightarrow> (int \<Rightarrow> int \<Rightarrow> real)
   \<Rightarrow> int \<times> int \<Rightarrow> bool" where
  "isFeature params prevTex currTex nextTex gid =
     (case gid of (px, py) \<Rightarrow>
        if px \<ge> 1 \<and> py \<ge> 1 \<and> px < ep_width params - 1 \<and> py < ep_height params - 1
        then passes_tests params prevTex currTex nextTex px py
        else False)"

definition store_features ::
  "ExtremaParams \<Rightarrow> 32 word \<Rightarrow> (int \<times> int) list \<Rightarrow> KeypointList \<Rightarrow> KeypointList" where
  "store_features params wgGlobalOffset features kl =
     fold (\<lambda>(myWgIdx, (px, py)) kl.
             store_point kl (wgGlobalOffset + of_nat myWgIdx)
               (make_keypoint px py (ep_octave params) (ep_scale params)))
       (zip [0..<length features] features) kl"

definition extrema_workgroup ::
  "ExtremaParams \<Rightarrow> (int \<Rightarrow> int \<Rightarrow> real) \<Rightarrow> (int \<Rightarrow> int \<Rightarrow> real) \<Rightarrow> (int \<Rightarrow> int \<Rightarrow> real)
   \<Rightarrow> nat \<times> nat \<Rightarrow> KeypointList \<Rightarrow> KeypointList" where
  "extrema_workgroup params prevTex currTex nextTex wid kl =
     (let features = filter (isFeature params prevTex currTex nextTex) (workgroup_threads wid);
          wgCount = length features
      in if wgCount > 0
         then case atomicAdd_count kl (of_nat wgCount) of
                (wgGlobalOffset, kl') \<Rightarrow> store_features params wgGlobalOffset features kl'
         else kl)"

definition extrema_dispatch ::
  "ExtremaParams \<Rightarrow> (int \<Rightarrow> int \<Rightarrow> real) \<Rightarrow> (int \<Rightarrow> int \<Rightarrow> real) \<Rightarrow> (int \<Rightarrow> int \<Rightarrow> real)
   \<Rightarrow> KeypointList \<Rightarrow> KeypointList" where
  "extrema_dispatch params prevTex currTex nextTex kl =
     fold (extrema_workgroup params prevTex currTex nextTex)
       (workgroups (ceil_div (nat (ep_width params)) 16) (ceil_div (nat (ep_height params)) 16)) kl"

text \<open>
  In \<open>extremum_flags\<close> the three nested loops of the shader run over the whole 3 x 3 x 3
  neighbourhood; the default shader leaves them early once both flags are false, which
  does not change the flags, since the loops only ever clear them. \<open>passes_tests\<close> is the
  contrast test, the extremum test and the edge test, shared by the two shaders;
  \<open>isFeature\<close> adds the border test of the default shader. A workgroup of the default
  shader counts its accepted pixels, reserves that many consecutive slots with one
  \<open>atomicAdd\<close> on \<open>keypoints.count\<close>, and each accepted pixel writes its slot.
\<close>

subsection \<open>The packed shader\<close>

text \<open>
  The packed shader reads logical pixels from textures that hold a 2 x 2 block per texel;
  \<open>/\<close> and \<open>%\<close> on \<open>i32\<close> truncate towards zero (\<open>tdiv\<close>, \<open>tmod\<close>). Each
  invocation visits its four logical pixels, and \<open>checkKeypoint\<close> reserves one slot per
  accepted pixel with \<open>atomicAdd(&keypoints.count, 1u)\<close>.
\<close>

definition tdiv :: "int \<Rightarrow> int \<Rightarrow> int" where
  "tdiv a b = sgn a * sgn b * (\<bar>a\<bar> div \<bar>b\<bar>)"

definition tmod :: "int \<Rightarrow> int \<Rightarrow> int" where
  "tmod a b = a - b * tdiv a b"

definition packed_getVal :: "(int \<Rightarrow> int \<Rightarrow> vec4) \<Rightarrow> int \<Rightarrow> int \<Rightarrow> real" where
  "packed_getVal tex lx ly =
     (let px = tdiv lx 2;
          py = tdiv ly 2;
          mx = tmod lx 2;
          my = tmod ly 2
      in case tex px py of (vx, vy, vz, vw) \<Rightarrow>
           if my = 0 then (if mx = 1 then vy else vx)
           else (if mx = 1 then vw else vz))"

definition checkKeypoint ::
  "ExtremaParams \<Rightarrow> (int \<Rightarrow> int \<Rightarrow> vec4) \<Rightarrow> (int \<Rightarrow> int \<Rightarrow> vec4) \<Rightarrow> (int \<Rightarrow> int \<Rightarrow> vec4)
   \<Rightarrow> int \<Rightarrow> int \<Rightarrow> KeypointList \<Rightarrow> KeypointList" where
  "checkKeypoint params prevTex currTex nextTex lx ly kl =
     (if passes_tests params (packed_getVal prevTex) (packed_getVal currTex)
           (packed_getVal nextTex) lx ly
      then case atomicAdd_count kl 1 of
             (globalIdx, kl') \<Rightarrow>
               store_point kl' globalIdx (make_keypoint lx ly (ep_octave params) (ep_scale params))
      else kl)"

definition packed_in_bounds :: "ExtremaParams \<Rightarrow> int \<times> int \<Rightarrow> bool" where
  "packed_in_bounds params l =
     (case l of (lx, ly) \<Rightarrow>
        \<not> (lx < 1 \<or> ly < 1 \<or> lx \<ge> ep_width params * 2 - 1 \<or> ly \<ge> ep_height params * 2 - 1))"

definition subpixels :: "int \<times> int \<Rightarrow> (int \<times> int) list" where
  "subpixels gid =
     (case gid of (px, py) \<Rightarrow>
        concat (map (\<lambda>sy. map (\<lambda>sx. (px * 2 + sx, py * 2 + sy)) [0, 1]) [0, 1]))"

definition packed_main ::
  "ExtremaParams \<Rightarrow> (int \<Rightarrow> int \<Rightarrow> vec4) \<Rightarrow> (int \<Rightarrow> int \<Rightarrow> vec4) \<Rightarrow> (int \<Rightarrow> int \<Rightarrow> vec4)
   \<Rightarrow> int \<times> int \<Rightarrow> KeypointList \<Rightarrow> KeypointList" where
  "packed_main params prevTex currTex nextTex gid kl =
     fold (\<lambda>(lx, ly) kl.
             if packed_in_bounds params (lx, ly)
             then checkKeypoint params prevTex currTex nextTex lx ly kl else kl)
       (subpixels gid) kl"

definition packed_dispatch ::
  "ExtremaParams \<Rightarrow> (int \<Rightarrow> int \<Rightarrow> vec4) \<Rightarrow> (int \<Rightarrow> int \<Rightarrow> vec4) \<Rightarrow> (int \<Rightarrow> int \<Rightarrow> vec4)
   \<Rightarrow> KeypointList \<Rightarrow> KeypointList" where
  "packed_dispatch params prevTex currTex nextTex kl =
     fold (packed_main params prevTex currTex nextTex)
       (concat (map workgroup_threads
          (workgroups (ceil_div (nat (ep_width params)) 16) (ceil_div (nat (ep_height params)) 16))))
       kl"

subsection \<open>The detection drivers\<close>

text \<open>
  A detection pass is the uniform \<open>Params\<close> of one (octave, scale) with its three DoG
  textures. The driver resets the counter, records one dispatch per pass, and reads the
  keypoints back. Neither shader nor driver compares the counter with the capacity.
\<close>

type_synonym extrema_pass =
  "ExtremaParams \<times> (int \<Rightarrow> int \<Rightarrow> real) \<times> (int \<Rightarrow> int \<Rightarrow> real) \<times> (int \<Rightarrow> int \<Rightarrow> real)"

type_synonym packed_pass =
  "ExtremaParams \<times> (int \<Rightarrow> int \<Rightarrow> vec4) \<times> (int \<Rightarrow> int \<Rightarrow> vec4) \<times> (int \<Rightarrow> int \<Rightarrow> vec4)"

definition recordDetectExtrema :: "extrema_pass list \<Rightarrow> KeypointList \<Rightarrow> KeypointList" where
  "recordDetectExtrema passes kl =
     fold (\<lambda>(params, prevTex, currTex, nextTex) kl.
             extrema_dispatch params prevTex currTex nextTex kl) passes kl"

definition detectExtrema_packed :: "packed_pass list \<Rightarrow> KeypointList \<Rightarrow> KeypointList" where
  "detectExtrema_packed passes kl =
     fold (\<lambda>(params, prevTex, currTex, nextTex) kl.
             packed_dispatch params prevTex currTex nextTex kl) passes kl"

definition zero_keypoint :: Keypoint where
  "zero_keypoint = \<lparr>gk_x = 0, gk_y = 0, gk_octave = 0, gk_scale = 0, gk_sigma = 0,
     gk_orientation = 0\<rparr>"

definition reset_count :: "KeypointList \<Rightarrow> KeypointList" where
  "reset_count kl = kl\<lparr>kl_count := 0\<rparr>"

definition detectKeypoints_default ::
  "KeypointList \<Rightarrow> extrema_pass list \<Rightarrow> real \<Rightarrow> Keypoint list" where
  "detectKeypoints_default buffer passes factor =
     (let kl = recordDetectExtrema passes (reset_count buffer)
      in readbackKeypoints (unat (kl_count kl)) (concat (map keypoint_floats (kl_points kl))) factor)"

definition detectKeypoints_packed ::
  "KeypointList \<Rightarrow> packed_pass list \<Rightarrow> real \<Rightarrow> js_error + Keypoint list" where
  "detectKeypoints_packed buffer passes factor =
     (let kl = detectExtrema_packed passes (reset_count buffer)
      in retrieveKeypoints (unat (kl_count kl)) (concat (map keypoint_floats (kl_points kl))) factor)"

subsection \<open>The candidates of a detection\<close>

text \<open>
  The number of candidates that pass the extremum tests, counted over all invocations of
  all passes: the quantity the claim about the capacity speaks of.
\<close>

definition dispatch_threads :: "ExtremaParams \<Rightarrow> (int \<times> int) list" where
  "dispatch_threads params =
     concat (map workgroup_threads
       (workgroups (ceil_div (nat (ep_width params)) 16) (ceil_div (nat (ep_height params)) 16)))"

definition candidates_default :: "extrema_pass list \<Rightarrow> nat" where
  "candidates_default passes =
     sum_list (map (\<lambda>(params, prevTex, currTex, nextTex).
        length (filter (isFeature params prevTex currTex nextTex) (dispatch_threads params))) passes)"

definition candidates_packed :: "packed_pass list \<Rightarrow> nat" where
  "candidates_packed passes =
     sum_list (map (\<lambda>(params, prevTex, currTex, nextTex).
        length (filter (\<lambda>(lx, ly). packed_in_bounds params (lx, ly)
                  \<and> passes_tests params (packed_getVal prevTex) (packed_getVal currTex)
                       (packed_getVal nextTex) lx ly)
                 (concat (map subpixels (dispatch_threads params))))) passes)"

subsection \<open>Two small detections\<close>

text \<open>
  A 6 x 3 DoG layer with two isolated peaks of height 1 at (1, 1) and (4, 1), between two
  layers of zeros, and the same layer packed into 3 x 2 texels; a keypoint buffer of
  capacity 1 and one of capacity 4 whose counter holds a stale 7.
\<close>

definition two_peaks :: "int \<Rightarrow> int \<Rightarrow> real" where
  "two_peaks = (\<lambda>px py. if py = 1 \<and> (px = 1 \<or> px = 4) then 1 else 0)"

definition flat_zero :: "int \<Rightarrow> int \<Rightarrow> real" where
  "flat_zero = (\<lambda>px py. 0)"

definition two_peaks_params :: ExtremaParams where
  "two_peaks_params = \<lparr>ep_width = 6, ep_height = 3, ep_octave = 0, ep_scale = 1,
     ep_threshold = 1 / 100, ep_edgeThreshold = 10\<rparr>"

definition two_peaks_pass :: extrema_pass where
  "two_peaks_pass = (two_peaks_params, flat_zero, two_peaks, flat_zero)"

definition small_buffer :: KeypointList where
  "small_buffer = \<lparr>kl_count = 0, kl_points = [zero_keypoint]\<rparr>"

definition packed_zero :: "int \<Rightarrow> int \<Rightarrow> vec4" where
  "packed_zero = (\<lambda>px py. (0, 0, 0, 0))"

definition packed_two_peaks :: "int \<Rightarrow> int \<Rightarrow> vec4" where
  "packed_two_peaks =
     (\<lambda>px py. if py = 0 \<and> px = 0 then (0, 0, 0, 1)
               else if py = 0 \<and> px = 2 then (0, 0, 1, 0) else (0, 0, 0, 0))"

definition packed_params :: ExtremaParams where
  "packed_params = \<lparr>ep_width = 3, ep_height = 2, ep_octave = 0, ep_scale = 1,
     ep_threshold = 1 / 100, ep_edgeThreshold = 10\<rparr>"

definition packed_two_peaks_pass :: packed_pass where
  "packed_two_peaks_pass = (packed_params, packed_zero, packed_two_peaks, packed_zero)"

definition large_buffer :: KeypointList where
  "large_buffer = \<lparr>kl_count = 7, kl_points = replicate 4 zero_keypoint\<rparr>"

section \<open>Descriptor matching\<close>

text \<open>
  The start value of \<open>bestDistSq\<close> and \<open>secondDistSq\<close> in the shaders: the \<open>f32\<close>
  nearest to the literal \<open>1e30\<close>, which is \<open>6617445 * 2^77\<close>.
\<close>

definition SENTINEL :: real where
  "SENTINEL = 1000000015047466219876688855040"

subsection \<open>The plain matcher on the GPU\<close>

text \<open>
  \<open>struct MatchResult\<close> of \<open>structs.wgsl\<close> (the padding word left out) as the plain
  matcher fills it, the two distances being \<open>f32\<close> values.
\<close>

record MatchResult32 =
  bestIdx32 :: int
  bestDistSq32 :: jsnum
  secondDistSq32 :: jsnum

text \<open>
  \<open>matcher.wgsl\<close>, one invocation \<open>idxA\<close>: the inner loop over the \<open>DESC_DIM\<close>
  components, the update of best and second best, and the loop over the \<open>countB\<close>
  candidates. A descriptor array lists the numbers stored in the \<open>Float32Array\<close>, which
  holds each rounded to \<open>f32\<close>. The host passes whole descriptors
  (\<open>countA = length / 128\<close>), so every read of the storage arrays is in range.
\<close>

definition descDistSq_f32 :: "real list \<Rightarrow> real list \<Rightarrow> nat \<Rightarrow> nat \<Rightarrow> jsnum" where
  "descDistSq_f32 descriptorsA descriptorsB idxA i =
     fold (\<lambda>k distSq.
             let valA = f32 (descriptorsA ! (idxA * DESC_DIM + k));
                 valB = f32 (descriptorsB ! (i * DESC_DIM + k));
                 diff = f32_sub valA valB
             in f32_add distSq (f32_mul diff diff))
          [0..<DESC_DIM] (Num 0)"

definition track_f32 :: "jsnum \<Rightarrow> nat \<Rightarrow> MatchResult32 \<Rightarrow> MatchResult32" where
  "track_f32 distSq i r =
     (if js_lt distSq (bestDistSq32 r)
      then \<lparr>bestIdx32 = int i, bestDistSq32 = distSq, secondDistSq32 = bestDistSq32 r\<rparr>
      else if js_lt distSq (secondDistSq32 r) then r\<lparr>secondDistSq32 := distSq\<rparr>
      else r)"

definition matcher_main :: "nat \<Rightarrow> real list \<Rightarrow> real list \<Rightarrow> nat \<Rightarrow> MatchResult32" where
  "matcher_main countB descriptorsA descriptorsB idxA =
     fold (\<lambda>i r. track_f32 (descDistSq_f32 descriptorsA descriptorsB idxA i) i r) [0..<countB]
       \<lparr>bestIdx32 = - 1, bestDistSq32 = Num SENTINEL, secondDistSq32 = Num SENTINEL\<rparr>"

text \<open>
  \<open>MatcherWebGPU.match\<close>: the dispatch runs \<open>main\<close> for every \<open>idxA < countA\<close>
  (invocations beyond \<open>countA\<close> return at once), the results are read back (an \<open>f32\<close>
  read from a \<open>Float32Array\<close> is the same number as a binary64), and the ratio test is
  applied on the host in binary64. The ratio is a Number, the binary64 nearest to the
  real \<open>ratio\<close>.
\<close>

definition match_gpu :: "real list \<Rightarrow> real list \<Rightarrow> real \<Rightarrow> (nat \<times> int) list" where
  "match_gpu descriptorsA descriptorsB ratio =
     (if length descriptorsA = 0 \<or> length descriptorsB = 0 then []
      else
        let countA = length descriptorsA div 128;
            countB = length descriptorsB div 128;
            results = map (matcher_main countB descriptorsA descriptorsB) [0..<countA];
            ratioSq = f64_mul (f64 ratio) (f64 ratio)
        in concat (map (\<lambda>i.
             if bestIdx32 (results ! i) \<ge> 0
                \<and> js_lt (bestDistSq32 (results ! i)) (f64_mul ratioSq (secondDistSq32 (results ! i)))
             then [(i, bestIdx32 (results ! i))] else []) [0..<countA]))"

subsection \<open>The CPU matcher\<close>

text \<open>
  \<open>MatcherCPU.matchStatic\<close>, in binary64. A descriptor lists the numbers stored in the
  array; reading it beyond its end gives \<open>undefined\<close>, which arithmetic turns into NaN.
\<close>

definition elem :: "real list \<Rightarrow> nat \<Rightarrow> jsnum" where
  "elem d k = (if k < length d then f64 (d ! k) else NaN)"

definition cpuDist :: "real list \<Rightarrow> real list \<Rightarrow> jsnum" where
  "cpuDist d1 d2 =
     fold (\<lambda>k distance.
             let diff = f64_sub (elem d1 k) (elem d2 k) in f64_add distance (f64_mul diff diff))
       [0..<128] (Num 0)"

record cpu_best =
  bestDist :: jsnum
  secondBestDist :: jsnum
  bestIdxC :: int

definition cpu_track :: "jsnum \<Rightarrow> nat \<Rightarrow> cpu_best \<Rightarrow> cpu_best" where
  "cpu_track distance j st =
     (if js_lt distance (bestDist st)
      then \<lparr>bestDist = distance, secondBestDist = bestDist st, bestIdxC = int j\<rparr>
      else if js_lt distance (secondBestDist st) then st\<lparr>secondBestDist := distance\<rparr>
      else st)"

definition cpu_search :: "real list \<Rightarrow> real list list \<Rightarrow> cpu_best" where
  "cpu_search d1 descriptors2 =
     fold (\<lambda>j st. cpu_track (cpuDist d1 (descriptors2 ! j)) j st) [0..<length descriptors2]
       \<lparr>bestDist = PosInf, secondBestDist = PosInf, bestIdxC = - 1\<rparr>"

definition matchStatic :: "real list list \<Rightarrow> real list list \<Rightarrow> real \<Rightarrow> (nat \<times> int) list" where
  "matchStatic descriptors1 descriptors2 ratio =
     concat (map (\<lambda>i.
       let st = cpu_search (descriptors1 ! i) descriptors2 in
       if js_lt (bestDist st) (f64_mul (f64_mul (f64 ratio) (f64 ratio)) (secondBestDist st))
       then [(i, bestIdxC st)] else []) [0..<length descriptors1])"

subsection \<open>The guided matcher\<close>

text \<open>
  \<open>matcher_guided.wgsl\<close> and \<open>MatcherWebGPU.matchGuided\<close>. The host copies the
  \<open>x\<close> and \<open>y\<close> of the first \<open>countA\<close> (\<open>countB\<close>) keypoint objects into the
  keypoint buffers; a missing object makes \<open>keypointsA[i].x\<close> throw a TypeError. \<open>F\<close> is
  a 3x3 matrix given by its rows, and is passed to the shader by columns.
  The geometry of the shader (a square root, a division) is not correctly rounded on a
  GPU; this shader is modelled with exact real arithmetic, its \<open>MatchResult\<close> holding
  real distances.
\<close>

record MatchResult =
  bestIdx :: int
  bestDistSq :: real
  secondDistSq :: real

definition descDistSq :: "real list \<Rightarrow> real list \<Rightarrow> nat \<Rightarrow> nat \<Rightarrow> real" where
  "descDistSq descriptorsA descriptorsB idxA i =
     fold (\<lambda>k distSq.
             let diff = descriptorsA ! (idxA * DESC_DIM + k) - descriptorsB ! (i * DESC_DIM + k)
             in distSq + diff * diff)
          [0..<DESC_DIM] 0"

definition track :: "real \<Rightarrow> nat \<Rightarrow> MatchResult \<Rightarrow> MatchResult" where
  "track distSq i r =
     (if distSq < bestDistSq r
      then \<lparr>bestIdx = int i, bestDistSq = distSq, secondDistSq = bestDistSq r\<rparr>
      else if distSq < secondDistSq r then r\<lparr>secondDistSq := distSq\<rparr>
      else r)"

type_synonym vec2 = "real \<times> real"
type_synonym vec3 = "real \<times> real \<times> real"
type_synonym mat3 = "vec3 \<times> vec3 \<times> vec3"

definition guided_main ::
  "nat \<Rightarrow> real \<Rightarrow> vec3 \<Rightarrow> vec3 \<Rightarrow> vec3 \<Rightarrow> real list \<Rightarrow> real list \<Rightarrow> vec2 list \<Rightarrow> vec2 list \<Rightarrow> nat
   \<Rightarrow> MatchResult" where
  "guided_main countB threshold col0 col1 col2 descriptorsA descriptorsB keypointsA keypointsB idxA =
     (case (keypointsA ! idxA, col0, col1, col2) of
        ((pAx, pAy), (c0x, c0y, c0z), (c1x, c1y, c1z), (c2x, c2y, c2z)) \<Rightarrow>
        let pAz = 1;
            lineBx = c0x * pAx + c1x * pAy + c2x * pAz;
            lineBy = c0y * pAx + c1y * pAy + c2y * pAz;
            lineBz = c0z * pAx + c1z * pAy + c2z * pAz;
            lineNorm = sqrt (lineBx * lineBx + lineBy * lineBy)
        in fold (\<lambda>i r.
             case keypointsB ! i of (pBx, pBy) \<Rightarrow>
               let distToLine = \<bar>lineBx * pBx + lineBy * pBy + lineBz\<bar> / (lineNorm + 1 / 10 ^ 6)
               in if distToLine > threshold then r
                  else track (descDistSq descriptorsA descriptorsB idxA i) i r)
             [0..<countB]
             \<lparr>bestIdx = - 1, bestDistSq = SENTINEL, secondDistSq = SENTINEL\<rparr>)"

datatype match_error = TypeError

definition matchGuided ::
  "real list \<Rightarrow> real list \<Rightarrow> vec2 list \<Rightarrow> vec2 list \<Rightarrow> mat3 \<Rightarrow> real
   \<Rightarrow> match_error + (nat \<times> int) list" where
  "matchGuided descriptorsA descriptorsB keypointsA keypointsB F threshold =
     (if length descriptorsA = 0 \<or> length descriptorsB = 0 then Inr []
      else
        let countA = length descriptorsA div 128;
            countB = length descriptorsB div 128
        in if length keypointsA < countA \<or> length keypointsB < countB then Inl TypeError
        else
          case F of ((f00, f01, f02), (f10, f11, f12), (f20, f21, f22)) \<Rightarrow>
          let col0 = (f00, f10, f20);
              col1 = (f01, f11, f21);
              col2 = (f02, f12, f22);
              results = map (guided_main countB threshold col0 col1 col2 descriptorsA descriptorsB
                               (take countA keypointsA) (take countB keypointsB)) [0..<countA]
          in Inr (concat (map (\<lambda>i.
               if bestIdx (results ! i) \<ge> 0 then [(i, bestIdx (results ! i))] else [])
               [0..<countA])))"

subsection \<open>The claims about the plain matcher, in the words of the spec\<close>

text \<open>
  The exact squared L2 distances from query \<open>i\<close> to all of B, and the second smallest
  entry of a list (with multiplicity).
\<close>

definition exact_dists :: "real list \<Rightarrow> real list \<Rightarrow> nat \<Rightarrow> real list" where
  "exact_dists descriptorsA descriptorsB i =
     map (descDistSq descriptorsA descriptorsB i) [0..<length descriptorsB div 128]"

definition second_smallest :: "real list \<Rightarrow> real" where
  "second_smallest ds = sort ds ! 1"

text \<open>
  The emission condition as the spec words it: \<open>j\<close> is an index achieving the minimum
  squared distance over B, the best index is not negative, and the minimum is below
  \<open>rho^2\<close> times the second-smallest squared distance over B.
\<close>

definition plain_match_claim :: "real list \<Rightarrow> real list \<Rightarrow> real \<Rightarrow> nat \<Rightarrow> nat \<Rightarrow> bool" where
  "plain_match_claim descriptorsA descriptorsB rho i j =
     (let ds = exact_dists descriptorsA descriptorsB i in
      i < length descriptorsA div 128 \<and> j < length ds \<and> ds ! j = Min (set ds)
      \<and> 0 \<le> bestIdx32 (matcher_main (length descriptorsB div 128) descriptorsA descriptorsB i)
      \<and> Min (set ds) < rho * rho * second_smallest ds)"

text \<open>
  The squared distances as the shader computes them. A distance that is not a finite number
  (an overflow to \<open>+Infinity\<close>, or NaN) is below nothing, as the start value is below
  nothing: \<open>finite_or_sentinel\<close> puts the start value in its place.
\<close>

definition finite_or_sentinel :: "jsnum \<Rightarrow> real" where
  "finite_or_sentinel v = (case v of Num x \<Rightarrow> x | PosInf \<Rightarrow> SENTINEL | NegInf \<Rightarrow> SENTINEL
     | NaN \<Rightarrow> SENTINEL)"

definition dists :: "real list \<Rightarrow> real list \<Rightarrow> nat \<Rightarrow> real list" where
  "dists descriptorsA descriptorsB i =
     map (\<lambda>j. finite_or_sentinel (descDistSq_f32 descriptorsA descriptorsB i j))
       [0..<length descriptorsB div 128]"

text \<open>
  The ratio test of the host, in binary64: \<open>best < (rho * rho) * second\<close>.
\<close>

definition ratio_test :: "real \<Rightarrow> jsnum \<Rightarrow> jsnum \<Rightarrow> bool" where
  "ratio_test rho best second = js_lt best (f64_mul (f64_mul (f64 rho) (f64 rho)) second)"

text \<open>
  The emission condition of the code: \<open>j\<close> is the first index achieving the minimum of
  the computed distances, the minimum is below the start value, and it passes the ratio
  test against the second-best distance, the second smallest of the computed distances
  together with the two start values \<open>1e30\<close>.
\<close>

definition plain_match_amended :: "real list \<Rightarrow> real list \<Rightarrow> real \<Rightarrow> nat \<Rightarrow> nat \<Rightarrow> bool" where
  "plain_match_amended descriptorsA descriptorsB rho i j =
     (let ds = dists descriptorsA descriptorsB i in
      descriptorsA \<noteq> [] \<and> descriptorsB \<noteq> [] \<and> i < length descriptorsA div 128
      \<and> j < length ds \<and> (\<forall>k<length ds. ds ! j \<le> ds ! k) \<and> (\<forall>k<j. ds ! j < ds ! k)
      \<and> ds ! j < SENTINEL
      \<and> ratio_test rho (Num (ds ! j)) (Num (second_smallest (ds @ [SENTINEL, SENTINEL]))))"

text \<open>
  The state of the best/second-best search after \<open>n\<close> candidates with real distances
  \<open>f\<close>, and the result struct holding it.
\<close>

definition tracked :: "(nat \<Rightarrow> real) \<Rightarrow> nat \<Rightarrow> MatchResult" where
  "tracked f n = fold (\<lambda>i r. track (f i) i r) [0..<n]
       \<lparr>bestIdx = - 1, bestDistSq = SENTINEL, secondDistSq = SENTINEL\<rparr>"

definition as_result32 :: "MatchResult \<Rightarrow> MatchResult32" where
  "as_result32 r = \<lparr>bestIdx32 = bestIdx r, bestDistSq32 = Num (bestDistSq r),
     secondDistSq32 = Num (secondDistSq r)\<rparr>"

text \<open>Descriptors for evaluating the matchers: all components 0, 1/8 and 1/4.\<close>

definition zeroDesc :: "real list" where "zeroDesc = replicate 128 0"
definition eighthDesc :: "real list" where "eighthDesc = replicate 128 (1 / 8)"
definition quarterDesc :: "real list" where "quarterDesc = replicate 128 (1 / 4)"

section \<open>Orientation assignment\<close>












section \<open>Descriptor extraction\<close>

text \<open>
  One accepted sample of the 16x16 descriptor grid, at grid offset \<open>(r, c)\<close> with gradient
  magnitude \<open>mag\<close> and orientation \<open>ori\<close> relative to the keypoint: its bin
  coordinates and its weighted magnitude, as \<open>descriptor.wgsl\<close> (default and packed)
  and \<open>SIFTCPU.computeDescriptorsImpl\<close> compute them before the trilinear accumulation.
\<close>

record sample_bins =
  sb_rbin :: real
  sb_cbin :: real
  sb_obin :: real
  sb_weight :: real

definition gpu_sample_bins :: "int \<Rightarrow> int \<Rightarrow> real \<Rightarrow> real \<Rightarrow> sample_bins" where
  "gpu_sample_bins r c mag n_ori =
     \<lparr>sb_rbin = (real_of_int r + 8) / real DESC_SUBGRID_SIZE - 1 / 2,
      sb_cbin = (real_of_int c + 8) / real DESC_SUBGRID_SIZE - 1 / 2,
      sb_obin = n_ori * real DESC_BINS / TWO_PI,
      sb_weight = mag * exp (- (real_of_int (r * r + c * c)) / DESC_GAUSSIAN_WEIGHT_SIGMA_SQ)\<rparr>"

definition cpu_sample_bins :: "int \<Rightarrow> int \<Rightarrow> real \<Rightarrow> real \<Rightarrow> sample_bins" where
  "cpu_sample_bins r c mag ori =
     \<lparr>sb_rbin = (real_of_int r + 8) / 4 - 1 / 2,
      sb_cbin = (real_of_int c + 8) / 4 - 1 / 2,
      sb_obin = (ori * 8) / (2 * pi),
      sb_weight = mag * exp (- (real_of_int (r * r + c * c)) / 32)\<rparr>"














section \<open>Feature I/O: the binary descriptor file\<close>

text \<open>
  \<open>serializeBinary\<close> and \<open>loadBinary\<close> of the feature I/O utilities. An
  \<open>ArrayBuffer\<close> seen through a \<open>DataView\<close> is a list of bytes, written and read
  little-endian (the \<open>true\<close> flag of every call). \<open>setUint32\<close> applies ToUint32 to
  its argument, which for the non-negative integers passed here is reduction modulo \<open>2^32\<close>.

  A float of the file is a binary32 bit pattern (a 32-bit word), and so is an element of a
  \<open>Float32Array\<close>. A JavaScript Number that is f32-representable is represented by the
  binary32 pattern of its value. A Number has a single NaN: whenever a binary32 NaN passes
  through a Number (an element read from a \<open>Float32Array\<close> and handed to
  \<open>setFloat32\<close>, or the result of \<open>getFloat32\<close>), its bit pattern is chosen anew.
  ECMAScript leaves the choice to the implementation; \<open>number_bits\<close> takes the
  conversion of the hardware, which sets the quiet bit (bit 22) and keeps the rest of the
  pattern. Every other pattern, the infinities and the two zeros included, is unchanged.
  Every access of a \<open>DataView\<close> outside the buffer throws a \<open>RangeError\<close>; a wrong
  magic makes \<open>loadBinary\<close> throw \<open>Error("Invalid binary format")\<close>.
\<close>

type_synonym byte = "8 word"
type_synonym f32 = "32 word"

definition bindE :: "js_error + 'a \<Rightarrow> ('a \<Rightarrow> js_error + 'b) \<Rightarrow> js_error + 'b" where
  "bindE m f = (case m of Inl e \<Rightarrow> Inl e | Inr x \<Rightarrow> f x)"

definition u32_bytes :: "32 word \<Rightarrow> byte list" where
  "u32_bytes w = [ucast w, ucast (drop_bit 8 w), ucast (drop_bit 16 w), ucast (drop_bit 24 w)]"

definition bytes_u32 :: "byte \<Rightarrow> byte \<Rightarrow> byte \<Rightarrow> byte \<Rightarrow> 32 word" where
  "bytes_u32 b0 b1 b2 b3 =
     ucast b0 OR push_bit 8 (ucast b1) OR push_bit 16 (ucast b2) OR push_bit 24 (ucast b3)"

definition write_bytes :: "byte list \<Rightarrow> nat \<Rightarrow> byte list \<Rightarrow> js_error + byte list" where
  "write_bytes view off bs =
     (if off + length bs \<le> length view
      then Inr (take off view @ bs @ drop (off + length bs) view)
      else Inl RangeError)"

definition setUint8 :: "byte list \<Rightarrow> nat \<Rightarrow> byte \<Rightarrow> js_error + byte list" where
  "setUint8 view off v = write_bytes view off [v]"

definition setUint32 :: "byte list \<Rightarrow> nat \<Rightarrow> nat \<Rightarrow> js_error + byte list" where
  "setUint32 view off v = write_bytes view off (u32_bytes (of_nat v))"

definition setInt32 :: "byte list \<Rightarrow> nat \<Rightarrow> 32 word \<Rightarrow> js_error + byte list" where
  "setInt32 view off v = write_bytes view off (u32_bytes v)"

definition is_nan32 :: "f32 \<Rightarrow> bool" where
  "is_nan32 w = (w AND 0x7F800000 = 0x7F800000 \<and> w AND 0x007FFFFF \<noteq> 0)"

definition number_bits :: "f32 \<Rightarrow> f32" where
  "number_bits w = (if is_nan32 w then w OR 0x00400000 else w)"

definition setFloat32 :: "byte list \<Rightarrow> nat \<Rightarrow> f32 \<Rightarrow> js_error + byte list" where
  "setFloat32 view off v = write_bytes view off (u32_bytes (number_bits v))"

definition getUint8 :: "byte list \<Rightarrow> nat \<Rightarrow> js_error + byte" where
  "getUint8 view off = (if off < length view then Inr (view ! off) else Inl RangeError)"

definition read_u32 :: "byte list \<Rightarrow> nat \<Rightarrow> js_error + 32 word" where
  "read_u32 view off =
     (if off + 4 \<le> length view
      then Inr (bytes_u32 (view ! off) (view ! (off + 1)) (view ! (off + 2)) (view ! (off + 3)))
      else Inl RangeError)"

definition getUint32 :: "byte list \<Rightarrow> nat \<Rightarrow> js_error + nat" where
  "getUint32 view off = bindE (read_u32 view off) (\<lambda>w. Inr (unat w))"

definition getInt32 :: "byte list \<Rightarrow> nat \<Rightarrow> js_error + 32 word" where
  "getInt32 view off = read_u32 view off"

definition getFloat32 :: "byte list \<Rightarrow> nat \<Rightarrow> js_error + f32" where
  "getFloat32 view off = bindE (read_u32 view off) (\<lambda>w. Inr (number_bits w))"

text \<open>
  The fields of a keypoint object that the binary format stores. \<open>desc[i]\<close> beyond the
  end of the descriptor array is \<open>undefined\<close>, which \<open>setFloat32\<close> stores as NaN.
\<close>

record file_keypoint =
  kp_x :: f32
  kp_y :: f32
  kp_scale :: f32
  kp_orientation :: f32
  kp_octave :: "32 word"
  kp_descriptor :: "f32 list"

definition f32_NaN :: f32 where
  "f32_NaN = 0x7FC00000"

definition HEADER_SIZE :: nat where "HEADER_SIZE = 32"
definition FEATURE_SIZE_V2 :: nat where "FEATURE_SIZE_V2 = 20 + 512"

text \<open>
  The loops of \<open>serializeBinary\<close>: \<open>for (let i = 0; i < 128; i++)\<close> over the
  descriptor (the last argument but one counts the remaining iterations) and
  \<open>for (const kp of keypoints)\<close> with \<open>offset += FEATURE_SIZE_V2\<close>.
\<close>

fun write_descriptor :: "f32 list \<Rightarrow> nat \<Rightarrow> nat \<Rightarrow> nat \<Rightarrow> byte list \<Rightarrow> js_error + byte list" where
  "write_descriptor desc offset i 0 view = Inr view"
| "write_descriptor desc offset i (Suc n) view =
     bindE (setFloat32 view (offset + 20 + i * 4) (if i < length desc then desc ! i else f32_NaN))
       (write_descriptor desc offset (Suc i) n)"

definition write_keypoint :: "file_keypoint \<Rightarrow> nat \<Rightarrow> byte list \<Rightarrow> js_error + byte list" where
  "write_keypoint kp offset view =
     bindE (setFloat32 view (offset + 0) (kp_x kp)) (\<lambda>view.
     bindE (setFloat32 view (offset + 4) (kp_y kp)) (\<lambda>view.
     bindE (setFloat32 view (offset + 8) (kp_scale kp)) (\<lambda>view.
     bindE (setFloat32 view (offset + 12) (kp_orientation kp)) (\<lambda>view.
     bindE (setInt32 view (offset + 16) (if kp_octave kp = 0 then 0 else kp_octave kp)) (\<lambda>view.
     write_descriptor (kp_descriptor kp) offset 0 128 view)))))"

fun write_keypoints :: "file_keypoint list \<Rightarrow> nat \<Rightarrow> byte list \<Rightarrow> js_error + byte list" where
  "write_keypoints [] offset view = Inr view"
| "write_keypoints (kp # kps) offset view =
     bindE (write_keypoint kp offset view) (write_keypoints kps (offset + FEATURE_SIZE_V2))"

definition serializeBinary :: "file_keypoint list \<Rightarrow> nat \<Rightarrow> nat \<Rightarrow> js_error + byte list" where
  "serializeBinary keypoints width height =
     (let buffer = replicate (HEADER_SIZE + length keypoints * FEATURE_SIZE_V2) (0 :: byte) in
      bindE (setUint8 buffer 0 0x57) (\<lambda>view.
      bindE (setUint8 view 1 0x53) (\<lambda>view.
      bindE (setUint8 view 2 0x46) (\<lambda>view.
      bindE (setUint8 view 3 0x54) (\<lambda>view.
      bindE (setUint32 view 4 1) (\<lambda>view.
      bindE (setUint32 view 8 (length keypoints)) (\<lambda>view.
      bindE (setUint32 view 12 128) (\<lambda>view.
      bindE (setUint32 view 16 width) (\<lambda>view.
      bindE (setUint32 view 20 height) (\<lambda>view.
      write_keypoints keypoints HEADER_SIZE view))))))))))"

text \<open>
  \<open>loadBinary\<close>: the inner loop \<open>for (let j = 0; j < dim; j++)\<close>, one keypoint
  object, and the outer loop \<open>for (let i = 0; i < count; i++)\<close> with
  \<open>offset += featureStride\<close>.
\<close>

fun read_descriptor :: "byte list \<Rightarrow> nat \<Rightarrow> nat \<Rightarrow> nat \<Rightarrow> js_error + f32 list" where
  "read_descriptor view offset j 0 = Inr []"
| "read_descriptor view offset j (Suc n) =
     bindE (getFloat32 view (offset + 20 + j * 4)) (\<lambda>v.
     bindE (read_descriptor view offset (Suc j) n) (\<lambda>vs. Inr (v # vs)))"

definition read_keypoint :: "byte list \<Rightarrow> nat \<Rightarrow> nat \<Rightarrow> js_error + file_keypoint" where
  "read_keypoint view offset dimension =
     bindE (getFloat32 view (offset + 0)) (\<lambda>x.
     bindE (getFloat32 view (offset + 4)) (\<lambda>y.
     bindE (getFloat32 view (offset + 8)) (\<lambda>s.
     bindE (getFloat32 view (offset + 12)) (\<lambda>ori.
     bindE (getInt32 view (offset + 16)) (\<lambda>oct.
     bindE (read_descriptor view offset 0 dimension) (\<lambda>d.
     Inr \<lparr>kp_x = x, kp_y = y, kp_scale = s, kp_orientation = ori, kp_octave = oct,
          kp_descriptor = d\<rparr>))))))"

fun read_keypoints :: "byte list \<Rightarrow> nat \<Rightarrow> nat \<Rightarrow> nat \<Rightarrow> nat \<Rightarrow> js_error + file_keypoint list" where
  "read_keypoints view offset dimension featureStride 0 = Inr []"
| "read_keypoints view offset dimension featureStride (Suc n) =
     bindE (read_keypoint view offset dimension) (\<lambda>kp.
     bindE (read_keypoints view (offset + featureStride) dimension featureStride n) (\<lambda>kps.
     Inr (kp # kps)))"

record loaded_features =
  lf_keypoints :: "file_keypoint list"
  lf_width :: nat
  lf_height :: nat
  lf_version :: nat

definition loadBinary :: "byte list \<Rightarrow> js_error + loaded_features" where
  "loadBinary buffer =
     bindE (getUint8 buffer 0) (\<lambda>m0.
     bindE (getUint8 buffer 1) (\<lambda>m1.
     bindE (getUint8 buffer 2) (\<lambda>m2.
     bindE (getUint8 buffer 3) (\<lambda>m3.
     if [m0, m1, m2, m3] \<noteq> [0x57, 0x53, 0x46, 0x54] then Inl InvalidBinaryFormat
     else
     bindE (getUint32 buffer 4) (\<lambda>version.
     bindE (getUint32 buffer 8) (\<lambda>count.
     bindE (getUint32 buffer 12) (\<lambda>dimension.
     bindE (getUint32 buffer 16) (\<lambda>width.
     bindE (getUint32 buffer 20) (\<lambda>height.
     bindE (read_keypoints buffer HEADER_SIZE dimension (20 + dimension * 4) count) (\<lambda>keypoints.
     Inr \<lparr>lf_keypoints = keypoints, lf_width = width, lf_height = height,
          lf_version = version\<rparr>))))))))))"

text \<open>
  The byte layout of a written file, used to state what \<open>serializeBinary\<close> produces: a
  32-byte header followed by one 532-byte record per keypoint.
\<close>

definition desc_bytes :: "f32 list \<Rightarrow> byte list" where
  "desc_bytes d = concat (map u32_bytes d)"

definition kp_bytes :: "file_keypoint \<Rightarrow> byte list" where
  "kp_bytes kp = u32_bytes (kp_x kp) @ u32_bytes (kp_y kp) @ u32_bytes (kp_scale kp) @
     u32_bytes (kp_orientation kp) @ u32_bytes (kp_octave kp) @ desc_bytes (kp_descriptor kp)"

definition header_bytes :: "nat \<Rightarrow> nat \<Rightarrow> nat \<Rightarrow> byte list" where
  "header_bytes n w h = [0x57, 0x53, 0x46, 0x54] @ u32_bytes 1 @ u32_bytes (of_nat n) @
     u32_bytes 128 @ u32_bytes (of_nat w) @ u32_bytes (of_nat h) @ replicate 8 0"

text \<open>
  What a round trip may do to a keypoint: \<open>stored_keypoint\<close> passes each float field
  and descriptor component through a Number; \<open>same_f32\<close> relates a binary32 pattern to
  what the claim allows in its place, the identical pattern, or any NaN for a NaN.
\<close>

definition stored_keypoint :: "file_keypoint \<Rightarrow> file_keypoint" where
  "stored_keypoint kp =
     \<lparr>kp_x = number_bits (kp_x kp), kp_y = number_bits (kp_y kp),
      kp_scale = number_bits (kp_scale kp), kp_orientation = number_bits (kp_orientation kp),
      kp_octave = kp_octave kp, kp_descriptor = map number_bits (kp_descriptor kp)\<rparr>"

definition same_f32 :: "f32 \<Rightarrow> f32 \<Rightarrow> bool" where
  "same_f32 a b = (if is_nan32 a then is_nan32 b else b = a)"

definition same_keypoint :: "file_keypoint \<Rightarrow> file_keypoint \<Rightarrow> bool" where
  "same_keypoint a b =
     (same_f32 (kp_x a) (kp_x b) \<and> same_f32 (kp_y a) (kp_y b)
      \<and> same_f32 (kp_scale a) (kp_scale b) \<and> same_f32 (kp_orientation a) (kp_orientation b)
      \<and> kp_octave b = kp_octave a
      \<and> list_all2 same_f32 (kp_descriptor a) (kp_descriptor b))"

text \<open>A concrete keypoint for evaluating the functions: x = 10, y = -20, scale = 2,
  orientation = pi/2 (rounded to binary32), octave = -1.\<close>

definition sample_keypoint :: file_keypoint where
  "sample_keypoint = \<lparr>kp_x = 0x41200000, kp_y = 0xC1A00000, kp_scale = 0x40000000,
     kp_orientation = 0x3FC90FDB, kp_octave = 0xFFFFFFFF,
     kp_descriptor = replicate 128 0x3DB504F3\<rparr>"

text \<open>The same keypoint with the signalling NaN \<open>0x7F800001\<close> in every descriptor
  component.\<close>

definition nan_keypoint :: file_keypoint where
  "nan_keypoint = sample_keypoint\<lparr>kp_descriptor := replicate 128 0x7F800001\<rparr>"

chapter \<open>Theorems\<close>

section \<open>Loops that add up\<close>

lemma fold_add_upt: "fold (\<lambda>k (acc::real). acc + f k) [0..<n] a = a + (\<Sum>k<n. f k)"
  by (induction n arbitrary: a) (simp_all add: algebra_simps)

lemma fold_sq_sum: "fold (\<lambda>k (acc::real). acc + d k * d k) [0..<n] 0 = (\<Sum>k<n. (d k)\<^sup>2)"
  by (simp add: fold_add_upt power2_eq_square)

section \<open>Rounding\<close>

lemma powi_pos [simp]: "(0::real) < 2 powi n"
  by (rule zero_less_power_int) simp

lemma powi_not_le_zero [simp]: "\<not> (2::real) powi n \<le> 0"
  using powi_pos [of n] by linarith

lemma powr_powi: "(2::real) powr real_of_int n = 2 powi n"
  by (rule powr_real_of_int') simp_all

lemma binade_iff:
  assumes "x \<noteq> 0"
  shows "binade x = e \<longleftrightarrow> 2 powi e \<le> \<bar>x\<bar> \<and> \<bar>x\<bar> < 2 powi (e + 1)"
proof -
  have pos: "0 < \<bar>x\<bar>" using assms by simp
  have "2 powr real_of_int (e + 1) = (2::real) powi (e + 1)" by (rule powr_powi)
  then show ?thesis
    unfolding binade_def using floor_log_eq_powr_iff [OF pos, of 2 e] by (simp add: powr_powi)
qed

lemma binade_eqI:
  assumes "2 powi e \<le> \<bar>x\<bar>" and "\<bar>x\<bar> < 2 powi (e + 1)"
  shows "binade x = e"
proof -
  have "0 < \<bar>x\<bar>" using assms(1) powi_pos [of e] by linarith
  then have "x \<noteq> 0" by simp
  then show ?thesis using assms by (simp add: binade_iff)
qed

lemma binade_bounds:
  assumes "x \<noteq> 0"
  shows "2 powi (binade x) \<le> \<bar>x\<bar>" and "\<bar>x\<bar> < 2 powi (binade x + 1)"
  using binade_iff [OF assms, of "binade x"] by simp_all

lemma round_half_even_of_int [simp]: "round_half_even (of_int n) = n"
  by (simp add: round_half_even_def)

lemma round_half_even_nonneg: "0 \<le> v \<Longrightarrow> 0 \<le> round_half_even v"
  unfolding round_half_even_def Let_def by (auto simp: zero_le_floor) 

lemma round_half_even_small: "\<bar>v\<bar> < 1 / 2 \<Longrightarrow> round_half_even v = 0"
proof -
  assume a: "\<bar>v\<bar> < 1 / 2"
  show ?thesis
  proof (cases "0 \<le> v")
    case True
    then have "\<lfloor>v\<rfloor> = 0" using a by (simp add: floor_eq_iff)
    then show ?thesis using a True by (simp add: round_half_even_def)
  next
    case False
    then have "\<lfloor>v\<rfloor> = - 1" using a by (simp add: floor_eq_iff)
    then show ?thesis using a False by (simp add: round_half_even_def)
  qed
qed

lemma powi_mono: "a \<le> b \<Longrightarrow> (2::real) powi a \<le> 2 powi b"
  by (rule power_int_increasing) simp_all


lemma powi_less_cancel: "(2::real) powi a < 2 powi b \<Longrightarrow> a < b"
  using powi_mono [of b a] by (cases "a < b") auto

lemma fl_round_zero [simp]: "fl_round p emin emax 0 = Num 0"
  by (simp add: fl_round_def Let_def round_half_even_def)

lemma fl_round_representable:
  assumes x: "x = of_int m * 2 powi k" and m: "\<bar>m\<bar> < 2 ^ p"
    and k: "emin - int p + 1 \<le> k" and big: "\<bar>x\<bar> < 2 powi (emax + 1)"
  shows "fl_round p emin emax x = Num x"
proof (cases "x = 0")
  case True
  then show ?thesis by simp
next
  case False
  define e where "e = max (binade x) emin"
  define j where "j = k - (e - int p + 1)"
  have le: "0 \<le> j"
  proof (cases "binade x \<le> emin")
    case True
    then have "e = emin" by (simp add: e_def)
    then show ?thesis using k by (simp add: j_def)
  next
    case b: False
    then have eb: "e = binade x" by (simp add: e_def)
    have "2 powi e \<le> \<bar>x\<bar>" unfolding eb using binade_bounds(1) [OF False] .
    also have "\<bar>x\<bar> = of_int \<bar>m\<bar> * 2 powi k" unfolding x by (simp add: abs_mult)
    also have "\<dots> < 2 ^ p * 2 powi k"
    proof -
      have "real_of_int \<bar>m\<bar> < real_of_int (2 ^ p)" using m by (simp only: of_int_less_iff)
      then show ?thesis by simp
    qed
    also have "\<dots> = 2 powi (int p + k)" by (simp add: power_int_add)
    finally have "e < int p + k" by (rule powi_less_cancel)
    then show ?thesis by (simp add: j_def)
  qed
  have q: "x / 2 powi (e - int p + 1) = of_int (m * 2 ^ nat j)"
  proof -
    have "x / 2 powi (e - int p + 1) = of_int m * 2 powi (k - (e - int p + 1))"
      unfolding x by (simp add: power_int_diff)
    also have "2 powi (k - (e - int p + 1)) = (2::real) ^ nat j"
      using le unfolding j_def [symmetric] by (simp add: power_int_def)
    finally show ?thesis by simp
  qed
  have y: "of_int (round_half_even (x / 2 powi (e - int p + 1))) * 2 powi (e - int p + 1) = x"
    unfolding q round_half_even_of_int unfolding q [symmetric] by simp
  show ?thesis
    unfolding fl_round_def Let_def e_def [symmetric] y using big by simp
qed

lemma fl_round_nonneg:
  assumes "0 \<le> x"
  shows "(\<exists>y\<ge>0. fl_round p emin emax x = Num y) \<or> fl_round p emin emax x = PosInf"
proof -
  define u where "u = (2::real) powi (max (binade x) emin - int p + 1)"
  have u: "0 < u" unfolding u_def by simp
  define y where "y = of_int (round_half_even (x / u)) * u"
  have "0 \<le> x / u" using assms u by simp
  then have y0: "0 \<le> y" unfolding y_def using u round_half_even_nonneg [of "x / u"] by simp
  show ?thesis
  proof (cases "2 powi (emax + 1) \<le> \<bar>y\<bar>")
    case True
    then have "0 < \<bar>y\<bar>" using powi_pos [of "emax + 1"] by linarith
    then have "x \<noteq> 0" unfolding y_def by (auto simp: round_half_even_def)
    then have "0 < x" using assms by simp
    then show ?thesis
      unfolding fl_round_def Let_def u_def [symmetric] y_def [symmetric] using True by simp
  next
    case False
    then show ?thesis
      unfolding fl_round_def Let_def u_def [symmetric] y_def [symmetric] using y0 by simp
  qed
qed

lemma fl_round_tiny:
  assumes "\<bar>x\<bar> < 2 powi (emin - int p)"
  shows "fl_round p emin emax x = Num 0"
proof (cases "x = 0")
  case True
  then show ?thesis by simp
next
  case False
  have "2 powi (binade x) \<le> \<bar>x\<bar>" using binade_bounds(1) [OF False] .
  then have "(2::real) powi (binade x) < 2 powi (emin - int p)" using assms by linarith
  then have "binade x < emin - int p" by (rule powi_less_cancel)
  then have e: "max (binade x) emin = emin" by simp
  have "\<bar>x / 2 powi (emin - int p + 1)\<bar> = \<bar>x\<bar> / 2 powi (emin - int p + 1)" by simp
  also have "\<dots> < 2 powi (emin - int p) / 2 powi (emin - int p + 1)"
    using assms by (simp add: divide_strict_right_mono)
  also have "\<dots> = 1 / 2" by (simp add: power_int_add)
  finally have "round_half_even (x / 2 powi (emin - int p + 1)) = 0"
    by (rule round_half_even_small)
  then show ?thesis unfolding fl_round_def Let_def e by simp
qed









lemma fl_round_not_negative: "0 \<le> x \<Longrightarrow> not_negative (fl_round p emin emax x)"
  using fl_round_nonneg [of x p emin emax] by (auto simp: not_negative_def)

lemma fl_round_not_NaN [simp]: "fl_round p emin emax x \<noteq> NaN"
  by (simp add: fl_round_def Let_def)

lemma f32_representable:
  "x = of_int m * 2 powi k \<Longrightarrow> \<bar>m\<bar> < 2 ^ 24 \<Longrightarrow> - 149 \<le> k \<Longrightarrow> \<bar>x\<bar> < 2 powi 128 \<Longrightarrow>
   f32 x = Num x"
  unfolding f32_def by (rule fl_round_representable [where m = m and k = k]) simp_all

lemma f64_representable:
  "x = of_int m * 2 powi k \<Longrightarrow> \<bar>m\<bar> < 2 ^ 53 \<Longrightarrow> - 1074 \<le> k \<Longrightarrow> \<bar>x\<bar> < 2 powi 1024 \<Longrightarrow>
   f64 x = Num x"
  unfolding f64_def by (rule fl_round_representable [where m = m and k = k]) simp_all

lemma mul_self_not_negative:
  assumes "\<And>x. 0 \<le> x \<Longrightarrow> not_negative (rnd x)"
  shows "not_negative (rounded rnd (js_mul v v))"
  using assms [of "x * x" for x] by (cases v) (simp_all add: rounded_def not_negative_def)

lemma add_not_negative:
  assumes "\<And>x. 0 \<le> x \<Longrightarrow> not_negative (rnd x)" and "not_negative a" and "not_negative b"
  shows "not_negative (rounded rnd (js_add a b))"
  using assms(2,3) assms(1) [of "x + y" for x y]
  by (cases a; cases b) (simp_all add: rounded_def not_negative_def)

lemma js_lt_PosInf [simp]: "js_lt PosInf y = False"
  by (cases y) simp_all

lemma js_lt_NaN2 [simp]: "js_lt x NaN = False"
  by (cases x) simp_all






section \<open>The Difference-of-Gaussians pyramid\<close>

lemma dog_main_dims [simp]:
  "tex_width (dog_main A B out gid) = tex_width out"
  "tex_height (dog_main A B out gid) = tex_height out"
  by (auto simp: dog_main_def textureStore_def Let_def split: prod.splits)

lemma fold_dog_dims [simp]:
  "tex_width (fold (\<lambda>gid out. dog_main A B out gid) gids out) = tex_width out"
  "tex_height (fold (\<lambda>gid out. dog_main A B out gid) gids out) = tex_height out"
  by (induction gids arbitrary: out) simp_all

lemma fold_dog_data:
  assumes "tex_width out = tex_width A" and "tex_height out = tex_height A"
    and "tex_width B = tex_width A" and "tex_height B = tex_height A"
  shows "tex_data (fold (\<lambda>gid out. dog_main A B out gid) gids out) x y =
     (if (x, y) \<in> set gids \<and> x < tex_width A \<and> y < tex_height A
      then vec4_sub (tex_data A x y) (tex_data B x y) else tex_data out x y)"
  using assms(1,2)
proof (induction gids arbitrary: out)
  case Nil
  then show ?case by simp
next
  case (Cons g gids)
  obtain gx gy where g: "g = (gx, gy)" by (cases g)
  have d: "tex_width (dog_main A B out g) = tex_width A" "tex_height (dog_main A B out g) = tex_height A"
    using Cons.prems by simp_all
  have one: "tex_data (dog_main A B out g) x y =
     (if (x, y) = g \<and> x < tex_width A \<and> y < tex_height A
      then vec4_sub (tex_data A x y) (tex_data B x y) else tex_data out x y)"
    using Cons.prems assms(3,4)
    by (auto simp: g dog_main_def textureStore_def textureLoad_def Let_def)
  show ?case
    using Cons.IH [OF d] one by auto
qed

lemma set_invocations:
  "set (invocations nx ny) = {(x, y). x < 16 * nx \<and> y < 16 * ny}"
  by (auto simp: invocations_def)

lemma ceil_div_16: "w \<le> 16 * ceil_div w 16"
  unfolding ceil_div_def by presburger

lemma runDoG_data:
  assumes "tex_width out = w" "tex_height out = h" "tex_width A = w" "tex_height A = h"
    "tex_width B = w" "tex_height B = h" "x < w" "y < h"
  shows "tex_data (runDoG A B out w h) x y = vec4_sub (tex_data A x y) (tex_data B x y)"
proof -
  have "(x, y) \<in> set (invocations (ceil_div w 16) (ceil_div h 16))"
    using assms(7,8) ceil_div_16 [of w] ceil_div_16 [of h] by (simp add: set_invocations)
  then show ?thesis
    unfolding runDoG_def using assms by (subst fold_dog_data) simp_all
qed

lemma buildDoG_data:
  assumes "s < length dogOctave" "x < w" "y < h"
    "tex_width (dogOctave ! s) = w" "tex_height (dogOctave ! s) = h"
    "tex_width (gaussOctave ! s) = w" "tex_height (gaussOctave ! s) = h"
    "tex_width (gaussOctave ! (s + 1)) = w" "tex_height (gaussOctave ! (s + 1)) = h"
  shows "tex_data (buildDoG gaussOctave dogOctave w h ! s) x y
         = vec4_sub (tex_data (gaussOctave ! s) x y) (tex_data (gaussOctave ! (s + 1)) x y)"
  unfolding buildDoG_def using assms by (simp add: runDoG_data)

text \<open>
  Claim C1 does not hold of the GPU pyramid: the shader stores \<open>a - b\<close> with \<open>a\<close> the
  texel of \<open>gaussOctave[s]\<close> and \<open>b\<close> that of \<open>gaussOctave[s + 1]\<close>, so the stored layer
  is \<open>G[s] - G[s+1]\<close>, the negative of the documented \<open>G[s+1] - G[s]\<close> that the CPU
  reference computes. With \<open>G[0] = 1/2\<close> and \<open>G[1] = 3/4\<close> on a 1 x 1 octave the GPU
  stores \<open>-1/4\<close> in each lane where the claim and the CPU reference give \<open>1/4\<close>, a
  difference of \<open>1/2\<close>, far above the tolerance \<open>1e-4\<close>.
\<close>

theorem C1_dog_operand_order:
  "tex_data (buildDoG [flat_texture 1 1 (1 / 2), flat_texture 1 1 (3 / 4)] [flat_texture 1 1 0] 1 1 ! 0) 0 0
     = (- (1 / 4), - (1 / 4), - (1 / 4), - (1 / 4))
   \<and> vec4_sub (tex_data (flat_texture 1 1 (3 / 4)) 0 0) (tex_data (flat_texture 1 1 (1 / 2)) 0 0)
     = (1 / 4, 1 / 4, 1 / 4, 1 / 4)
   \<and> computeDoG_cpu [[1 / 2], [3 / 4]] 1 1 = [[1 / 4]]
   \<and> (1 :: real) / 10 ^ 4 < \<bar>- (1 / 4) - 1 / 4\<bar>"
proof -
  have "tex_data (buildDoG [flat_texture 1 1 (1 / 2), flat_texture 1 1 (3 / 4)]
            [flat_texture 1 1 0] 1 1 ! 0) 0 0
        = vec4_sub (tex_data (flat_texture 1 1 (1 / 2)) 0 0) (tex_data (flat_texture 1 1 (3 / 4)) 0 0)"
    using buildDoG_data [of 0 "[flat_texture 1 1 0]" 0 1 0 1
        "[flat_texture 1 1 (1 / 2), flat_texture 1 1 (3 / 4)]"]
    by (simp add: flat_texture_def)
  then show ?thesis
    by (simp add: vec4_sub_def flat_texture_def computeDoG_cpu_def)
qed

section \<open>Keypoints and their readback\<close>

text \<open>
  Claim C2 does not hold of either driver: the readback multiplies \<open>x\<close>, \<open>y\<close> and the
  scale index \<open>scale\<close> by the scale-restore factor and copies \<open>sigma\<close> unchanged. A
  6000 x 4000 image with \<open>maxImageDimension = 3000\<close> is downscaled by 1/2, the factor is 2;
  the keypoint the shader writes for pixel (10, 20) of octave 0, scale 3 has sigma
  \<open>1.6 * 2^(3/3) * 2^0 = 3.2\<close>. Both \<open>retrieveKeypoints\<close> and \<open>readbackKeypoints\<close>
  return it with sigma 3.2 (and scale 6), where the claim requires \<open>3.2 * 2 = 6.4\<close>; the
  gap is far above \<open>1e-5\<close> relative.
\<close>

theorem C2_sigma_not_restored:
  "pb_scaleRestoreFactor (processBitmap 6000 4000 3000) = 2
   \<and> gk_sigma (make_keypoint 10 20 0 3) = 32 / 10
   \<and> retrieveKeypoints 1 (keypoint_floats (make_keypoint 10 20 0 3)) 2
       = Inr [\<lparr>gk_x = 20, gk_y = 40, gk_octave = 0, gk_scale = 6, gk_sigma = 32 / 10, gk_orientation = 0\<rparr>]
   \<and> readbackKeypoints 1 (keypoint_floats (make_keypoint 10 20 0 3)) 2
       = [\<lparr>gk_x = 20, gk_y = 40, gk_octave = 0, gk_scale = 6, gk_sigma = 32 / 10, gk_orientation = 0\<rparr>]
   \<and> SIGMA_BASE * 2 powr (3 / SCALES_PER_OCTAVE) * 2 powr 0 * 2 = 64 / 10
   \<and> 1 / 10 ^ 5 * (64 / 10) < \<bar>32 / 10 - 64 / (10 :: real)\<bar>"
  by (simp add: processBitmap_def make_keypoint_def keypoint_floats_def retrieveKeypoints_def
      readbackKeypoints_def parse_keypoints_def SIGMA_BASE_def SCALES_PER_OCTAVE_def Let_def)

section \<open>Extremum detection\<close>

subsection \<open>The counter after a detection\<close>

lemma store_point_count [simp]: "kl_count (store_point kl idx kp) = kl_count kl"
  by (simp add: store_point_def)

lemma store_point_length [simp]:
  "length (kl_points (store_point kl idx kp)) = length (kl_points kl)"
  by (simp add: store_point_def)

lemma store_features_count [simp]:
  "kl_count (store_features params off fs kl) = kl_count kl"
proof -
  have "kl_count (fold (\<lambda>(myWgIdx, (px, py)) kl.
             store_point kl (off + of_nat myWgIdx)
               (make_keypoint px py (ep_octave params) (ep_scale params))) zs kl) = kl_count kl"
    for zs :: "(nat \<times> int \<times> int) list"
    by (induction zs arbitrary: kl) (simp_all split: prod.splits)
  then show ?thesis by (simp add: store_features_def)
qed

lemma store_features_length [simp]:
  "length (kl_points (store_features params off fs kl)) = length (kl_points kl)"
proof -
  have "length (kl_points (fold (\<lambda>(myWgIdx, (px, py)) kl.
             store_point kl (off + of_nat myWgIdx)
               (make_keypoint px py (ep_octave params) (ep_scale params))) zs kl))
        = length (kl_points kl)"
    for zs :: "(nat \<times> int \<times> int) list"
    by (induction zs arbitrary: kl) (simp_all split: prod.splits)
  then show ?thesis by (simp add: store_features_def)
qed

lemma extrema_workgroup_count:
  "kl_count (extrema_workgroup params prevTex currTex nextTex wid kl)
     = kl_count kl
       + of_nat (length (filter (isFeature params prevTex currTex nextTex) (workgroup_threads wid)))"
  by (simp add: extrema_workgroup_def Let_def atomicAdd_count_def)

lemma extrema_workgroup_length [simp]:
  "length (kl_points (extrema_workgroup params prevTex currTex nextTex wid kl))
     = length (kl_points kl)"
  by (simp add: extrema_workgroup_def Let_def atomicAdd_count_def)

lemma fold_workgroups_count:
  "kl_count (fold (extrema_workgroup params prevTex currTex nextTex) wgs kl)
     = kl_count kl
       + of_nat (length (filter (isFeature params prevTex currTex nextTex)
                   (concat (map workgroup_threads wgs))))"
  by (induction wgs arbitrary: kl) (simp_all add: extrema_workgroup_count)

lemma fold_workgroups_length [simp]:
  "length (kl_points (fold (extrema_workgroup params prevTex currTex nextTex) wgs kl))
     = length (kl_points kl)"
  by (induction wgs arbitrary: kl) simp_all

lemma extrema_dispatch_count:
  "kl_count (extrema_dispatch params prevTex currTex nextTex kl)
     = kl_count kl
       + of_nat (length (filter (isFeature params prevTex currTex nextTex) (dispatch_threads params)))"
  by (simp add: extrema_dispatch_def dispatch_threads_def fold_workgroups_count)

lemma extrema_dispatch_length [simp]:
  "length (kl_points (extrema_dispatch params prevTex currTex nextTex kl)) = length (kl_points kl)"
  by (simp add: extrema_dispatch_def)

lemma recordDetectExtrema_count:
  "kl_count (recordDetectExtrema passes kl) = kl_count kl + of_nat (candidates_default passes)"
  unfolding recordDetectExtrema_def candidates_default_def
  by (induction passes arbitrary: kl) (simp_all add: extrema_dispatch_count split: prod.splits)

lemma recordDetectExtrema_length [simp]:
  "length (kl_points (recordDetectExtrema passes kl)) = length (kl_points kl)"
  unfolding recordDetectExtrema_def
  by (induction passes arbitrary: kl) (simp_all split: prod.splits)

lemma checkKeypoint_count:
  "kl_count (checkKeypoint params prevTex currTex nextTex lx ly kl)
     = kl_count kl
       + (if passes_tests params (packed_getVal prevTex) (packed_getVal currTex)
               (packed_getVal nextTex) lx ly then 1 else 0)"
  by (simp add: checkKeypoint_def atomicAdd_count_def)

lemma checkKeypoint_length [simp]:
  "length (kl_points (checkKeypoint params prevTex currTex nextTex lx ly kl))
     = length (kl_points kl)"
  by (simp add: checkKeypoint_def atomicAdd_count_def)

lemma subpixel_step_count:
  "kl_count (if packed_in_bounds params (lx, ly)
             then checkKeypoint params prevTex currTex nextTex lx ly kl else kl)
     = kl_count kl
       + (if packed_in_bounds params (lx, ly)
             \<and> passes_tests params (packed_getVal prevTex) (packed_getVal currTex)
                  (packed_getVal nextTex) lx ly then 1 else 0)"
  by (simp add: checkKeypoint_count)

lemma fold_subpixels_count:
  "kl_count (fold (\<lambda>(lx, ly) kl.
             if packed_in_bounds params (lx, ly)
             then checkKeypoint params prevTex currTex nextTex lx ly kl else kl) ls kl)
     = kl_count kl
       + of_nat (length (filter (\<lambda>(lx, ly). packed_in_bounds params (lx, ly)
                  \<and> passes_tests params (packed_getVal prevTex) (packed_getVal currTex)
                       (packed_getVal nextTex) lx ly) ls))"
proof (induction ls arbitrary: kl)
  case Nil
  show ?case by simp
next
  case (Cons l ls)
  obtain lx ly where l: "l = (lx, ly)" by (cases l)
  show ?case
    unfolding l by (simp add: Cons.IH subpixel_step_count del: checkKeypoint_count)
qed

lemma fold_subpixels_length [simp]:
  "length (kl_points (fold (\<lambda>(lx, ly) kl.
             if packed_in_bounds params (lx, ly)
             then checkKeypoint params prevTex currTex nextTex lx ly kl else kl) ls kl))
     = length (kl_points kl)"
  by (induction ls arbitrary: kl) auto

lemma fold_packed_main_count:
  "kl_count (fold (packed_main params prevTex currTex nextTex) gids kl)
     = kl_count kl
       + of_nat (length (filter (\<lambda>(lx, ly). packed_in_bounds params (lx, ly)
                  \<and> passes_tests params (packed_getVal prevTex) (packed_getVal currTex)
                       (packed_getVal nextTex) lx ly) (concat (map subpixels gids))))"
  by (induction gids arbitrary: kl) (simp_all add: packed_main_def fold_subpixels_count)

lemma fold_packed_main_length [simp]:
  "length (kl_points (fold (packed_main params prevTex currTex nextTex) gids kl))
     = length (kl_points kl)"
  by (induction gids arbitrary: kl) (simp_all add: packed_main_def)

lemma detectExtrema_packed_count:
  "kl_count (detectExtrema_packed passes kl) = kl_count kl + of_nat (candidates_packed passes)"
  unfolding detectExtrema_packed_def candidates_packed_def
  by (induction passes arbitrary: kl)
    (simp_all add: packed_dispatch_def dispatch_threads_def fold_packed_main_count
      split: prod.splits)

lemma detectExtrema_packed_length [simp]:
  "length (kl_points (detectExtrema_packed passes kl)) = length (kl_points kl)"
  unfolding detectExtrema_packed_def
  by (induction passes arbitrary: kl) (simp_all add: packed_dispatch_def split: prod.splits)

lemma length_parse_keypoints [simp]: "length (parse_keypoints kpData count factor) = count"
  by (simp add: parse_keypoints_def)

lemma length_readbackKeypoints [simp]: "length (readbackKeypoints count points factor) = count"
  by (simp add: readbackKeypoints_def Let_def)

lemma retrieveKeypoints_cases:
  "(case retrieveKeypoints count staged factor of
      Inl e \<Rightarrow> e = RangeError \<and> length staged < count * 8
    | Inr kps \<Rightarrow> length kps = count \<and> count * 8 \<le> length staged)"
  by (simp add: retrieveKeypoints_def)

lemma length_staged [simp]:
  "length (concat (map keypoint_floats pts)) = 8 * length pts"
  by (induction pts) (simp_all add: keypoint_floats_def)

lemma reset_count_simps [simp]:
  "kl_count (reset_count kl) = 0" "kl_points (reset_count kl) = kl_points kl"
  by (simp_all add: reset_count_def)

text \<open>
  Claim C3, as amended. Whenever at most \<open>max_keypoints\<close> candidates pass the extremum
  tests, the counter of the keypoint buffer after the detection is the number of
  candidates (as a \<open>u32\<close>) and does not exceed the capacity, and the detect call returns
  exactly as many keypoints as the counter says, hence at most \<open>max_keypoints\<close>; the
  packed driver returns without an error.
\<close>

theorem C3_keypoint_count:
  "(candidates_default passes \<le> length (kl_points buffer) \<longrightarrow>
      kl_count (recordDetectExtrema passes (reset_count buffer)) = of_nat (candidates_default passes)
      \<and> unat (kl_count (recordDetectExtrema passes (reset_count buffer))) \<le> length (kl_points buffer)
      \<and> length (detectKeypoints_default buffer passes factor)
          = unat (kl_count (recordDetectExtrema passes (reset_count buffer)))
      \<and> length (detectKeypoints_default buffer passes factor) \<le> length (kl_points buffer))
   \<and> (candidates_packed ppasses \<le> length (kl_points buffer) \<longrightarrow>
      kl_count (detectExtrema_packed ppasses (reset_count buffer)) = of_nat (candidates_packed ppasses)
      \<and> unat (kl_count (detectExtrema_packed ppasses (reset_count buffer))) \<le> length (kl_points buffer)
      \<and> (case detectKeypoints_packed buffer ppasses factor of
            Inl e \<Rightarrow> False
          | Inr kps \<Rightarrow>
              length kps = unat (kl_count (detectExtrema_packed ppasses (reset_count buffer)))
              \<and> length kps \<le> length (kl_points buffer)))"
proof -
  have k1: "kl_count (recordDetectExtrema passes (reset_count buffer))
            = of_nat (candidates_default passes)"
    by (simp add: recordDetectExtrema_count)
  have k2: "kl_count (detectExtrema_packed ppasses (reset_count buffer))
            = of_nat (candidates_packed ppasses)"
    by (simp add: detectExtrema_packed_count)
  have u1: "unat (kl_count (recordDetectExtrema passes (reset_count buffer)))
            \<le> candidates_default passes"
    unfolding k1 by (simp add: unat_of_nat)
  have u2: "unat (kl_count (detectExtrema_packed ppasses (reset_count buffer)))
            \<le> candidates_packed ppasses"
    unfolding k2 by (simp add: unat_of_nat)
  have d: "length (detectKeypoints_default buffer passes factor)
           = unat (kl_count (recordDetectExtrema passes (reset_count buffer)))"
    by (simp add: detectKeypoints_default_def Let_def)
  have p: "(case detectKeypoints_packed buffer ppasses factor of
            Inl e \<Rightarrow> False
          | Inr kps \<Rightarrow>
              length kps = unat (kl_count (detectExtrema_packed ppasses (reset_count buffer)))
              \<and> length kps \<le> length (kl_points buffer))"
    if le: "candidates_packed ppasses \<le> length (kl_points buffer)"
    using retrieveKeypoints_cases
      [where count = "unat (kl_count (detectExtrema_packed ppasses (reset_count buffer)))"
        and staged = "concat (map keypoint_floats
          (kl_points (detectExtrema_packed ppasses (reset_count buffer))))"
        and factor = factor] u2 le
    by (simp add: detectKeypoints_packed_def Let_def split: sum.splits)
  show ?thesis using k1 k2 u1 u2 d p by auto
qed

subsection \<open>Two peaks, capacity one\<close>

lemma two_peaks_tests:
  assumes "ep_threshold params = 1 / 100" and "ep_edgeThreshold params = 10"
  shows "passes_tests params flat_zero two_peaks flat_zero 1 1"
    "passes_tests params flat_zero two_peaks flat_zero 4 1"
    "\<not> passes_tests params flat_zero two_peaks flat_zero 2 1"
    "\<not> passes_tests params flat_zero two_peaks flat_zero 3 1"
  by (simp_all add: passes_tests_def assms extremum_flags_def neighbourhood_def
      edge_test_def two_peaks_def flat_zero_def Let_def)

lemma two_peaks_tests_iff:
  assumes "ep_threshold params = 1 / 100" and "ep_edgeThreshold params = 10"
    and "1 \<le> px" and "px < 5"
  shows "passes_tests params flat_zero two_peaks flat_zero px py \<longleftrightarrow> py = 1 \<and> (px = 1 \<or> px = 4)"
proof (cases "py = 1")
  case True
  have "px = 1 \<or> px = 2 \<or> px = 3 \<or> px = 4" using assms(3,4) by auto
  then show ?thesis using two_peaks_tests [OF assms(1,2)] True by auto
next
  case False
  then have "two_peaks px py = 0" by (simp add: two_peaks_def)
  then show ?thesis using False by (simp add: passes_tests_def assms(1))
qed

lemma two_peaks_feature:
  "isFeature two_peaks_params flat_zero two_peaks flat_zero (px, py) \<longleftrightarrow>
     py = 1 \<and> (px = 1 \<or> px = 4)"
proof (cases "px \<ge> 1 \<and> py \<ge> 1 \<and> px < 5 \<and> py < 2")
  case True
  then have "1 \<le> px" "px < 5" by auto
  then show ?thesis
    using True two_peaks_tests_iff [of two_peaks_params px py]
    by (simp add: isFeature_def two_peaks_params_def)
next
  case False
  then show ?thesis by (auto simp: isFeature_def two_peaks_params_def)
qed

lemma two_peaks_threads:
  "dispatch_threads two_peaks_params = map (\<lambda>lid. (int (lid mod 16), int (lid div 16))) [0..<256]"
  by (simp add: dispatch_threads_def two_peaks_params_def workgroups_def ceil_div_def
      workgroup_threads_def)

lemma two_peaks_candidates:
  "length (filter (isFeature two_peaks_params flat_zero two_peaks flat_zero)
             (dispatch_threads two_peaks_params)) = 2"
proof -
  let ?P = "isFeature two_peaks_params flat_zero two_peaks flat_zero"
  let ?f = "\<lambda>lid. (int (lid mod 16), int (lid div 16))"
  have "length (filter ?P (map ?f [0..<256])) = length (filter (?P \<circ> ?f) [0..<256])"
    by (simp add: filter_map)
  also have "\<dots> = card {i. i < length [0..<256] \<and> (?P \<circ> ?f) ([0..<256] ! i)}"
    by (rule length_filter_conv_card)
  also have "{i. i < length [0..<256] \<and> (?P \<circ> ?f) ([0..<256] ! i)} = {17, 20 :: nat}"
    by (auto simp: two_peaks_feature; presburger)
  finally show ?thesis unfolding two_peaks_threads by simp
qed

lemma candidates_two_peaks: "candidates_default [two_peaks_pass] = 2"
  using two_peaks_candidates
  by (simp add: candidates_default_def two_peaks_pass_def)

text \<open>
  Claim C3 as stated fails: with capacity \<open>max_keypoints = 1\<close> and two candidates the
  counter ends at 2, above the capacity, and the default driver returns 2 keypoints, more
  than \<open>max_keypoints\<close>.
\<close>

theorem C3_keypoint_count_counterexample:
  "length (kl_points small_buffer) = 1
   \<and> kl_count (recordDetectExtrema [two_peaks_pass] (reset_count small_buffer)) = 2
   \<and> length (detectKeypoints_default small_buffer [two_peaks_pass] 1) = 2"
  by (simp add: small_buffer_def recordDetectExtrema_count candidates_two_peaks
      detectKeypoints_default_def Let_def)

subsection \<open>The same peaks in packed textures\<close>

lemma tdiv_tmod_nonneg: "0 \<le> a \<Longrightarrow> tdiv a 2 = a div 2 \<and> tmod a 2 = a mod 2"
  by (auto simp: tdiv_def tmod_def sgn_if minus_mult_div_eq_mod)

lemma packed_getVal_two_peaks:
  assumes "0 \<le> lx" and "0 \<le> ly"
  shows "packed_getVal packed_two_peaks lx ly = two_peaks lx ly"
proof -
  have e: "tdiv lx 2 = lx div 2" "tmod lx 2 = lx mod 2" "tdiv ly 2 = ly div 2" "tmod ly 2 = ly mod 2"
    using assms tdiv_tmod_nonneg by simp_all
  consider "ly = 1" "lx = 1" | "ly = 1" "lx = 4" | "\<not> (ly = 1 \<and> (lx = 1 \<or> lx = 4))" by blast
  then show ?thesis
  proof cases
    case 1
    then show ?thesis
      unfolding packed_getVal_def e Let_def packed_two_peaks_def two_peaks_def by simp
  next
    case 2
    then show ?thesis
      unfolding packed_getVal_def e Let_def packed_two_peaks_def two_peaks_def by simp
  next
    case 3
    have "\<not> (ly div 2 = 0 \<and> lx div 2 = 0 \<and> ly mod 2 = 1 \<and> lx mod 2 = 1)"
      "\<not> (ly div 2 = 0 \<and> lx div 2 = 2 \<and> ly mod 2 = 1 \<and> lx mod 2 = 0)"
      using 3 assms by presburger+
    then show ?thesis
      using 3 unfolding packed_getVal_def e Let_def packed_two_peaks_def two_peaks_def
      by (auto split: if_splits)
  qed
qed

lemma packed_getVal_zero: "packed_getVal packed_zero lx ly = flat_zero lx ly"
  by (simp add: packed_getVal_def packed_zero_def flat_zero_def)


lemma neighbourhood_range:
  "(vz, vy, vx) \<in> set neighbourhood \<Longrightarrow> - 1 \<le> vx \<and> vx \<le> 1 \<and> - 1 \<le> vy \<and> vy \<le> 1"
  by (auto simp: neighbourhood_def)

lemma extremum_flags_cong:
  assumes "\<And>vx vy. - 1 \<le> vx \<Longrightarrow> vx \<le> 1 \<Longrightarrow> - 1 \<le> vy \<Longrightarrow> vy \<le> 1 \<Longrightarrow>
      p (px + vx) (py + vy) = p' (px + vx) (py + vy)
      \<and> c (px + vx) (py + vy) = c' (px + vx) (py + vy)
      \<and> n (px + vx) (py + vy) = n' (px + vx) (py + vy)"
  shows "extremum_flags p c n px py val = extremum_flags p' c' n' px py val"
  unfolding extremum_flags_def
proof (rule fold_cong [OF refl refl])
  fix v assume v: "v \<in> set neighbourhood"
  obtain vz vy vx where t: "v = (vz, vy, vx)" by (cases v)
  have r: "- 1 \<le> vx \<and> vx \<le> 1 \<and> - 1 \<le> vy \<and> vy \<le> 1"
    using neighbourhood_range v unfolding t by blast
  have e: "p (px + vx) (py + vy) = p' (px + vx) (py + vy)"
    "c (px + vx) (py + vy) = c' (px + vx) (py + vy)"
    "n (px + vx) (py + vy) = n' (px + vx) (py + vy)"
    using assms [of vx vy] r by simp_all
  show "(case v of (vz, vy, vx) \<Rightarrow> \<lambda>(isMax, isMin).
             if vx = 0 \<and> vy = 0 \<and> vz = 0 then (isMax, isMin)
             else
               let neighborVal =
                     (if vz = - 1 then p (px + vx) (py + vy)
                      else if vz = 0 then c (px + vx) (py + vy)
                      else n (px + vx) (py + vy))
               in (if neighborVal \<ge> val then False else isMax,
                   if neighborVal \<le> val then False else isMin))
        = (case v of (vz, vy, vx) \<Rightarrow> \<lambda>(isMax, isMin).
             if vx = 0 \<and> vy = 0 \<and> vz = 0 then (isMax, isMin)
             else
               let neighborVal =
                     (if vz = - 1 then p' (px + vx) (py + vy)
                      else if vz = 0 then c' (px + vx) (py + vy)
                      else n' (px + vx) (py + vy))
               in (if neighborVal \<ge> val then False else isMax,
                   if neighborVal \<le> val then False else isMin))"
    unfolding t prod.case e ..
qed

lemma edge_test_cong:
  assumes "\<And>vx vy. - 1 \<le> vx \<Longrightarrow> vx \<le> 1 \<Longrightarrow> - 1 \<le> vy \<Longrightarrow> vy \<le> 1 \<Longrightarrow>
      c (px + vx) (py + vy) = c' (px + vx) (py + vy)"
  shows "edge_test c px py val r = edge_test c' px py val r"
proof -
  have "c (px + 1) py = c' (px + 1) py" "c (px - 1) py = c' (px - 1) py"
    "c px (py + 1) = c' px (py + 1)" "c px (py - 1) = c' px (py - 1)"
    "c (px + 1) (py + 1) = c' (px + 1) (py + 1)" "c (px + 1) (py - 1) = c' (px + 1) (py - 1)"
    "c (px - 1) (py + 1) = c' (px - 1) (py + 1)" "c (px - 1) (py - 1) = c' (px - 1) (py - 1)"
    using assms [of 1 0] assms [of "- 1" 0] assms [of 0 1] assms [of 0 "- 1"]
      assms [of 1 1] assms [of 1 "- 1"] assms [of "- 1" 1] assms [of "- 1" "- 1"]
    by simp_all
  then show ?thesis unfolding edge_test_def by (simp only:)
qed

lemma passes_tests_cong:
  assumes "\<And>vx vy. - 1 \<le> vx \<Longrightarrow> vx \<le> 1 \<Longrightarrow> - 1 \<le> vy \<Longrightarrow> vy \<le> 1 \<Longrightarrow>
      p (px + vx) (py + vy) = p' (px + vx) (py + vy)
      \<and> c (px + vx) (py + vy) = c' (px + vx) (py + vy)
      \<and> n (px + vx) (py + vy) = n' (px + vx) (py + vy)"
  shows "passes_tests params p c n px py = passes_tests params p' c' n' px py"
proof -
  have c0: "c px py = c' px py" using assms [of 0 0] by simp
  have f: "extremum_flags p c n px py val = extremum_flags p' c' n' px py val" for val
    by (rule extremum_flags_cong) (use assms in blast)
  have e: "edge_test c px py val r = edge_test c' px py val r" for val r
    by (rule edge_test_cong) (use assms in blast)
  show ?thesis unfolding passes_tests_def c0 f e ..
qed

lemma packed_two_peaks_tests:
  assumes "1 \<le> lx" and "1 \<le> ly"
  shows "passes_tests packed_params (packed_getVal packed_zero) (packed_getVal packed_two_peaks)
           (packed_getVal packed_zero) lx ly
         = passes_tests packed_params flat_zero two_peaks flat_zero lx ly"
proof (rule passes_tests_cong)
  fix vx vy :: int
  assume "- 1 \<le> vx" "vx \<le> 1" "- 1 \<le> vy" "vy \<le> 1"
  then have "packed_getVal packed_two_peaks (lx + vx) (ly + vy) = two_peaks (lx + vx) (ly + vy)"
    using assms by (intro packed_getVal_two_peaks) simp_all
  then show "packed_getVal packed_zero (lx + vx) (ly + vy) = flat_zero (lx + vx) (ly + vy)
      \<and> packed_getVal packed_two_peaks (lx + vx) (ly + vy) = two_peaks (lx + vx) (ly + vy)
      \<and> packed_getVal packed_zero (lx + vx) (ly + vy) = flat_zero (lx + vx) (ly + vy)"
    by (simp add: packed_getVal_zero)
qed

lemma packed_candidate_iff:
  "packed_in_bounds packed_params (lx, ly)
     \<and> passes_tests packed_params (packed_getVal packed_zero) (packed_getVal packed_two_peaks)
          (packed_getVal packed_zero) lx ly
   \<longleftrightarrow> ly = 1 \<and> (lx = 1 \<or> lx = 4)"
proof (cases "packed_in_bounds packed_params (lx, ly)")
  case True
  then have b: "1 \<le> lx" "lx < 5" "1 \<le> ly"
    by (auto simp: packed_in_bounds_def packed_params_def)
  have p: "ep_threshold packed_params = 1 / 100" "ep_edgeThreshold packed_params = 10"
    by (simp_all add: packed_params_def)
  show ?thesis
    unfolding packed_two_peaks_tests [OF b(1) b(3)] two_peaks_tests_iff [OF p b(1) b(2)]
    using True by simp
next
  case False
  then have "\<not> (ly = 1 \<and> (lx = 1 \<or> lx = 4))"
    by (auto simp: packed_in_bounds_def packed_params_def)
  then show ?thesis using False by blast
qed

lemma subpixels_list:
  "subpixels (px, py) = [(px * 2 + 0, py * 2 + 0), (px * 2 + 1, py * 2 + 0),
     (px * 2 + 0, py * 2 + 1), (px * 2 + 1, py * 2 + 1)]"
  by (simp add: subpixels_def)

lemma length_filter4:
  "length (filter Q [a, b, c, d])
     = (if Q a then 1 else 0) + (if Q b then 1 else 0) + (if Q c then 1 else 0)
       + (if Q d then 1 else 0)"
  by simp

lemma packed_thread_candidates:
  assumes "i < 256"
  shows "length (filter (\<lambda>(lx, ly). packed_in_bounds packed_params (lx, ly)
            \<and> passes_tests packed_params (packed_getVal packed_zero)
                 (packed_getVal packed_two_peaks) (packed_getVal packed_zero) lx ly)
           (subpixels (int (i mod 16), int (i div 16))))
         = (if i = 0 then 1 else 0) + (if i = 2 then 1 else 0)"
proof -
  define px py where "px = int (i mod 16)" and "py = int (i div 16)"
  have r1: "\<not> (py * 2 + 0 = 1 \<and> (px * 2 + 0 = 1 \<or> px * 2 + 0 = 4))" by presburger
  have r2: "\<not> (py * 2 + 0 = 1 \<and> (px * 2 + 1 = 1 \<or> px * 2 + 1 = 4))" by presburger
  have q3: "(py * 2 + 1 = 1 \<and> (px * 2 + 0 = 1 \<or> px * 2 + 0 = 4)) \<longleftrightarrow> py = 0 \<and> px = 2"
    by presburger
  have q4: "(py * 2 + 1 = 1 \<and> (px * 2 + 1 = 1 \<or> px * 2 + 1 = 4)) \<longleftrightarrow> py = 0 \<and> px = 0"
    by presburger
  have row: "py = 0 \<longleftrightarrow> i < 16" unfolding py_def by (simp add: div_eq_0_iff)
  have c3: "py = 0 \<and> px = 2 \<longleftrightarrow> i = 2"
  proof
    assume a: "py = 0 \<and> px = 2"
    then have "i < 16" using row by simp
    then have "i mod 16 = i" by simp
    moreover have "i mod 16 = 2" using a unfolding px_def by simp
    ultimately show "i = 2" by simp
  next
    assume "i = 2"
    then show "py = 0 \<and> px = 2" unfolding px_def py_def by simp
  qed
  have c4: "py = 0 \<and> px = 0 \<longleftrightarrow> i = 0"
  proof
    assume a: "py = 0 \<and> px = 0"
    then have "i < 16" using row by simp
    then have "i mod 16 = i" by simp
    moreover have "i mod 16 = 0" using a unfolding px_def by simp
    ultimately show "i = 0" by simp
  next
    assume "i = 0"
    then show "py = 0 \<and> px = 0" unfolding px_def py_def by simp
  qed
  have r3: "(py * 2 + 1 = 1 \<and> (px * 2 + 0 = 1 \<or> px * 2 + 0 = 4)) \<longleftrightarrow> i = 2"
    using q3 c3 by (rule trans)
  have r4: "(py * 2 + 1 = 1 \<and> (px * 2 + 1 = 1 \<or> px * 2 + 1 = 4)) \<longleftrightarrow> i = 0"
    using q4 c4 by (rule trans)
  show ?thesis
    unfolding px_def [symmetric] py_def [symmetric] subpixels_list length_filter4 prod.case
      packed_candidate_iff r3 r4
    using r1 r2 by (simp only: if_False add_0_left add_0_right add.commute)
qed

lemma candidates_packed_two_peaks: "candidates_packed [packed_two_peaks_pass] = 2"
proof -
  let ?Q = "\<lambda>(lx, ly). packed_in_bounds packed_params (lx, ly)
            \<and> passes_tests packed_params (packed_getVal packed_zero)
                 (packed_getVal packed_two_peaks) (packed_getVal packed_zero) lx ly"
  let ?f = "\<lambda>lid. (int (lid mod 16), int (lid div 16))"
  have t: "dispatch_threads packed_params = map ?f [0..<256]"
    by (simp add: dispatch_threads_def packed_params_def workgroups_def ceil_div_def
        workgroup_threads_def del: upt_rec_numeral)
  have "length (filter ?Q (concat (map subpixels (map ?f [0..<256]))))
        = sum_list (map (\<lambda>i. length (filter ?Q (subpixels (?f i)))) [0..<256])"
    by (simp add: filter_concat length_concat comp_def del: upt_rec_numeral)
  also have "\<dots> = sum_list (map (\<lambda>i. (if i = 0 then 1 else 0) + (if i = 2 then 1 else 0)) [0..<256])"
    by (rule arg_cong [where f = sum_list], rule map_cong [OF refl])
      (simp add: packed_thread_candidates del: upt_rec_numeral)
  also have "\<dots> = (\<Sum>i = 0..<256::nat. (if i = 0 then 1 else 0) + (if i = 2 then 1 else (0::nat)))"
    by (simp add: interv_sum_list_conv_sum_set_nat del: upt_rec_numeral)
  also have "\<dots> = 2"
    by (simp add: sum.distrib)
  finally show ?thesis
    by (simp add: candidates_packed_def packed_two_peaks_pass_def t del: upt_rec_numeral)
qed

theorem C3_keypoint_count_witness:
  "candidates_default [two_peaks_pass] \<le> length (kl_points large_buffer)
   \<and> candidates_packed [packed_two_peaks_pass] \<le> length (kl_points large_buffer)
   \<and> kl_count (recordDetectExtrema [two_peaks_pass] (reset_count large_buffer)) = 2
   \<and> length (detectKeypoints_default large_buffer [two_peaks_pass] 1) = 2
   \<and> kl_count (detectExtrema_packed [packed_two_peaks_pass] (reset_count large_buffer)) = 2
   \<and> (case detectKeypoints_packed large_buffer [packed_two_peaks_pass] 1 of
          Inl e \<Rightarrow> False | Inr kps \<Rightarrow> length kps = 2)"
  using C3_keypoint_count [where passes = "[two_peaks_pass]" and buffer = large_buffer
      and ppasses = "[packed_two_peaks_pass]" and factor = 1]
  by (simp add: candidates_two_peaks candidates_packed_two_peaks large_buffer_def
      split: sum.splits)

section \<open>Descriptor matching\<close>

subsection \<open>Exact distances\<close>

lemma descDistSq_sum:
  "descDistSq A B idxA i = (\<Sum>k<DESC_DIM. (A ! (idxA * DESC_DIM + k) - B ! (i * DESC_DIM + k))\<^sup>2)"
  unfolding descDistSq_def Let_def by (simp add: fold_add_upt power2_eq_square)

lemma descDistSq_const:
  assumes "\<And>k. k < DESC_DIM \<Longrightarrow> A ! (idxA * DESC_DIM + k) - B ! (i * DESC_DIM + k) = c"
  shows "descDistSq A B idxA i = 128 * c\<^sup>2"
  unfolding descDistSq_sum using assms by (simp add: DESC_DIM_def)

lemma descDistSq_zero_pair:
  assumes "j < 2"
  shows "descDistSq zeroDesc (replicate 128 a @ replicate 128 b) 0 j
         = 128 * (if j = 0 then a else b)\<^sup>2"
proof -
  have "descDistSq zeroDesc (replicate 128 a @ replicate 128 b) 0 j
        = 128 * (- (if j = 0 then a else b))\<^sup>2"
    by (rule descDistSq_const)
      (use assms in \<open>auto simp: zeroDesc_def DESC_DIM_def nth_append less_2_cases_iff\<close>)
  then show ?thesis by simp
qed

lemma length_descs [simp]:
  "length zeroDesc = 128" "length eighthDesc = 128" "length quarterDesc = 128"
  by (simp_all add: zeroDesc_def eighthDesc_def quarterDesc_def)

lemma descs_not_Nil [simp]: "zeroDesc \<noteq> []" "eighthDesc \<noteq> []" "quarterDesc \<noteq> []"
  by (simp_all add: zeroDesc_def eighthDesc_def quarterDesc_def)

subsection \<open>The best and the second best of a list of distances\<close>

lemma take2_insort:
  "sorted (b # s # rest) \<Longrightarrow>
   take 2 (insort x (b # s # rest))
     = (if x < b then [x, b] else if x < s then [b, x] else [b, (s::real)])"
  by (auto simp: numeral_2_eq_2)

lemma sort_snoc_mid: "sort (xs @ x # ys) = insort x (sort (xs @ ys))"
  by (induction xs) (simp_all add: insort_left_comm)

lemma sort_two_more:
  obtains b s rest where "sort (ds @ [u, v]) = b # s # rest"
proof -
  have "length (sort (ds @ [u, v])) = Suc (Suc (length ds))" by simp
  then show ?thesis
    using that by (cases "sort (ds @ [u, v])"; cases "tl (sort (ds @ [u, v]))") auto
qed
lemma tracked_0: "tracked f 0 = \<lparr>bestIdx = - 1, bestDistSq = SENTINEL, secondDistSq = SENTINEL\<rparr>"
  by (simp add: tracked_def)

lemma tracked_Suc: "tracked f (Suc n) = track (f n) n (tracked f n)"
  by (simp add: tracked_def)

lemma tracked_two_smallest:
  "[bestDistSq (tracked f n), secondDistSq (tracked f n)]
     = take 2 (sort (map f [0..<n] @ [SENTINEL, SENTINEL]))"
proof (induction n)
  case 0
  show ?case by (simp add: tracked_0 numeral_2_eq_2)
next
  case (Suc n)
  let ?ds = "map f [0..<n]"
  obtain b s rest where bs: "sort (?ds @ [SENTINEL, SENTINEL]) = b # s # rest"
    by (rule sort_two_more)
  have srt: "sorted (b # s # rest)"
    using sorted_sort [of "?ds @ [SENTINEL, SENTINEL]"] unfolding bs .
  have ih: "bestDistSq (tracked f n) = b" "secondDistSq (tracked f n) = s"
    using Suc.IH unfolding bs by (simp_all add: numeral_2_eq_2)
  have "sort (map f [0..<Suc n] @ [SENTINEL, SENTINEL])
        = insort (f n) (sort (?ds @ [SENTINEL, SENTINEL]))"
    using sort_snoc_mid [of ?ds "f n" "[SENTINEL, SENTINEL]"] by simp
  then have "take 2 (sort (map f [0..<Suc n] @ [SENTINEL, SENTINEL]))
        = (if f n < b then [f n, b] else if f n < s then [b, f n] else [b, s])"
    unfolding bs using take2_insort [OF srt] by simp
  then show ?case
    by (simp add: tracked_Suc track_def ih)
qed

lemma tracked_index:
  "(bestIdx (tracked f n) = - 1 \<and> bestDistSq (tracked f n) = SENTINEL \<and> (\<forall>j<n. \<not> f j < SENTINEL))
   \<or> (\<exists>m<n. bestIdx (tracked f n) = int m \<and> bestDistSq (tracked f n) = f m \<and> f m < SENTINEL
          \<and> (\<forall>j<n. f m \<le> f j) \<and> (\<forall>j<m. f m < f j))"
proof (induction n)
  case 0
  show ?case by (simp add: tracked_0)
next
  case (Suc n)
  show ?case
  proof (cases "f n < bestDistSq (tracked f n)")
    case True
    have t: "tracked f (Suc n) = \<lparr>bestIdx = int n, bestDistSq = f n,
               secondDistSq = bestDistSq (tracked f n)\<rparr>"
      using True by (simp add: tracked_Suc track_def)
    from Suc.IH have "f n < SENTINEL \<and> (\<forall>j<n. f n < f j)"
    proof
      assume "bestIdx (tracked f n) = - 1 \<and> bestDistSq (tracked f n) = SENTINEL
                \<and> (\<forall>j<n. \<not> f j < SENTINEL)"
      then show ?thesis using True by force
    next
      assume "\<exists>m<n. bestIdx (tracked f n) = int m \<and> bestDistSq (tracked f n) = f m
                \<and> f m < SENTINEL \<and> (\<forall>j<n. f m \<le> f j) \<and> (\<forall>j<m. f m < f j)"
      then show ?thesis using True by force
    qed
    then have "n < Suc n \<and> bestIdx (tracked f (Suc n)) = int n
        \<and> bestDistSq (tracked f (Suc n)) = f n \<and> f n < SENTINEL
        \<and> (\<forall>j<Suc n. f n \<le> f j) \<and> (\<forall>j<n. f n < f j)"
      unfolding t by (auto simp: less_Suc_eq)
    then show ?thesis by blast
  next
    case False
    have t: "bestIdx (tracked f (Suc n)) = bestIdx (tracked f n)"
        "bestDistSq (tracked f (Suc n)) = bestDistSq (tracked f n)"
      using False by (simp_all add: tracked_Suc track_def)
    from Suc.IH show ?thesis
    proof
      assume a: "bestIdx (tracked f n) = - 1 \<and> bestDistSq (tracked f n) = SENTINEL
                \<and> (\<forall>j<n. \<not> f j < SENTINEL)"
      then have "\<forall>j<Suc n. \<not> f j < SENTINEL" using False by (auto simp: less_Suc_eq)
      then show ?thesis unfolding t using a by blast
    next
      assume "\<exists>m<n. bestIdx (tracked f n) = int m \<and> bestDistSq (tracked f n) = f m
                \<and> f m < SENTINEL \<and> (\<forall>j<n. f m \<le> f j) \<and> (\<forall>j<m. f m < f j)"
      then obtain m where m: "m < n" "bestIdx (tracked f n) = int m"
        "bestDistSq (tracked f n) = f m" "f m < SENTINEL" "\<forall>j<n. f m \<le> f j" "\<forall>j<m. f m < f j"
        by blast
      have "\<forall>j<Suc n. f m \<le> f j" using m False by (auto simp: less_Suc_eq)
      then have "m < Suc n \<and> bestIdx (tracked f (Suc n)) = int m
        \<and> bestDistSq (tracked f (Suc n)) = f m \<and> f m < SENTINEL
        \<and> (\<forall>j<Suc n. f m \<le> f j) \<and> (\<forall>j<m. f m < f j)"
        unfolding t using m by simp
      then show ?thesis by blast
    qed
  qed
qed

lemma tracked_second:
  "secondDistSq (tracked f n) = second_smallest (map f [0..<n] @ [SENTINEL, SENTINEL])"
proof -
  obtain b s rest where bs: "sort (map f [0..<n] @ [SENTINEL, SENTINEL]) = b # s # rest"
    by (rule sort_two_more)
  show ?thesis
    using tracked_two_smallest [of f n] unfolding second_smallest_def bs
    by (simp add: numeral_2_eq_2)
qed

lemma tracked_first_min:
  assumes "0 \<le> bestIdx (tracked f n)"
  shows "nat (bestIdx (tracked f n)) < n
     \<and> bestDistSq (tracked f n) = f (nat (bestIdx (tracked f n)))
     \<and> f (nat (bestIdx (tracked f n))) < SENTINEL
     \<and> (\<forall>j<n. f (nat (bestIdx (tracked f n))) \<le> f j)
     \<and> (\<forall>j<nat (bestIdx (tracked f n)). f (nat (bestIdx (tracked f n))) < f j)"
  using tracked_index [of f n] assms by auto

lemma tracked_first_min_unique:
  assumes j: "j < n" and le: "\<forall>k<n. f j \<le> f k" and first: "\<forall>k<j. f j < f k" and s: "f j < SENTINEL"
  shows "bestIdx (tracked f n) = int j"
proof -
  from tracked_index [of f n] j s
  obtain m where m: "m < n" "bestIdx (tracked f n) = int m" "\<forall>k<n. f m \<le> f k" "\<forall>k<m. f m < f k"
    by blast
  have "\<not> m < j"
  proof
    assume "m < j"
    then have "f j < f m" using first by blast
    moreover have "f m \<le> f j" using m(3) j by blast
    ultimately show False by simp
  qed
  moreover have "\<not> j < m"
  proof
    assume "j < m"
    then have "f m < f j" using m(4) by blast
    moreover have "f j \<le> f m" using le m(1) by blast
    ultimately show False by simp
  qed
  ultimately show ?thesis using m(2) by simp
qed

lemma tracked_le_sentinel:
  "bestDistSq (tracked f n) \<le> SENTINEL \<and> secondDistSq (tracked f n) \<le> SENTINEL"
  by (induction n) (auto simp: tracked_0 tracked_Suc track_def)

subsection \<open>The shader's search in \<open>f32\<close>\<close>

lemma not_negative_f32: "0 \<le> x \<Longrightarrow> not_negative (f32 x)"
  unfolding f32_def by (rule fl_round_not_negative)

lemma not_negative_f64: "0 \<le> x \<Longrightarrow> not_negative (f64 x)"
  unfolding f64_def by (rule fl_round_not_negative)

lemma descDistSq_f32_not_negative: "not_negative (descDistSq_f32 A B idxA i)"
proof -
  have "not_negative acc \<Longrightarrow> not_negative (fold (\<lambda>k distSq.
             let valA = f32 (A ! (idxA * DESC_DIM + k));
                 valB = f32 (B ! (i * DESC_DIM + k));
                 diff = f32_sub valA valB
             in f32_add distSq (f32_mul diff diff)) ks acc)" for ks acc
  proof (induction ks arbitrary: acc)
    case Nil
    then show ?case by simp
  next
    case (Cons k ks)
    let ?d = "f32_sub (f32 (A ! (idxA * DESC_DIM + k))) (f32 (B ! (i * DESC_DIM + k)))"
    have "not_negative (f32_mul ?d ?d)"
      unfolding f32_mul_def by (rule mul_self_not_negative) (rule not_negative_f32)
    then have "not_negative (f32_add acc (f32_mul ?d ?d))"
      unfolding f32_add_def using Cons.prems
      by (intro add_not_negative) (simp_all add: not_negative_f32)
    then show ?case using Cons.IH by (simp add: Let_def)
  qed
  then show ?thesis unfolding descDistSq_f32_def by (simp add: not_negative_def)
qed

lemma track_f32_as_result32:
  assumes "not_negative d" and "bestDistSq r \<le> SENTINEL" and "secondDistSq r \<le> SENTINEL"
  shows "track_f32 d i (as_result32 r) = as_result32 (track (finite_or_sentinel d) i r)"
  using assms
  by (cases d)
    (auto simp: track_f32_def track_def as_result32_def finite_or_sentinel_def not_negative_def)

lemma matcher_main_Suc:
  "matcher_main (Suc n) A B i = track_f32 (descDistSq_f32 A B i n) n (matcher_main n A B i)"
  by (simp add: matcher_main_def)

lemma matcher_main_tracked:
  "matcher_main n A B i
     = as_result32 (tracked (\<lambda>j. finite_or_sentinel (descDistSq_f32 A B i j)) n)"
proof (induction n)
  case 0
  show ?case by (simp add: matcher_main_def tracked_0 as_result32_def)
next
  case (Suc n)
  show ?case
    unfolding matcher_main_Suc Suc.IH tracked_Suc
    using tracked_le_sentinel [of "\<lambda>j. finite_or_sentinel (descDistSq_f32 A B i j)" n]
    by (intro track_f32_as_result32 descDistSq_f32_not_negative) simp_all
qed

lemma match_gpu_mem:
  "(i, z) \<in> set (match_gpu A B rho) \<longleftrightarrow>
     A \<noteq> [] \<and> B \<noteq> [] \<and> i < length A div 128
     \<and> 0 \<le> bestIdx32 (matcher_main (length B div 128) A B i)
     \<and> ratio_test rho (bestDistSq32 (matcher_main (length B div 128) A B i))
          (secondDistSq32 (matcher_main (length B div 128) A B i))
     \<and> z = bestIdx32 (matcher_main (length B div 128) A B i)"
  unfolding match_gpu_def ratio_test_def Let_def by (auto split: if_splits)

lemma length_dists: "length (dists A B i) = length B div 128"
  by (simp add: dists_def)

lemma dists_nth:
  "k < length B div 128 \<Longrightarrow> dists A B i ! k = finite_or_sentinel (descDistSq_f32 A B i k)"
  by (simp add: dists_def)

text \<open>
  Claim C4, as amended. For all float descriptor arrays A and B and every ratio \<open>rho\<close>,
  the plain matcher emits the pair \<open>(i, j)\<close> iff \<open>j\<close> is the first index achieving the
  minimum of the squared L2 distances from A[i] over B as the shader computes them in
  \<open>f32\<close>, that minimum is below the start value \<open>1e30\<close>, and it passes the ratio test
  of the host, \<open>best < (rho * rho) * second\<close> in binary64, against the second-best
  distance, the second smallest of the computed distances together with two start values
  \<open>1e30\<close>.
\<close>

theorem C4_plain_matcher_emits:
  "(i, z) \<in> set (match_gpu A B rho) \<longleftrightarrow> 0 \<le> z \<and> plain_match_amended A B rho i (nat z)"
proof -
  let ?n = "length B div 128"
  let ?f = "\<lambda>j. finite_or_sentinel (descDistSq_f32 A B i j)"
  let ?R = "tracked ?f ?n"
  have sec: "secondDistSq ?R = second_smallest (dists A B i @ [SENTINEL, SENTINEL])"
    unfolding dists_def by (rule tracked_second)
  have mm: "bestIdx32 (matcher_main ?n A B i) = bestIdx ?R"
    "bestDistSq32 (matcher_main ?n A B i) = Num (bestDistSq ?R)"
    "secondDistSq32 (matcher_main ?n A B i) = Num (secondDistSq ?R)"
    unfolding matcher_main_tracked by (simp_all add: as_result32_def)
  show ?thesis
  proof
    assume "(i, z) \<in> set (match_gpu A B rho)"
    then have a: "A \<noteq> []" "B \<noteq> []" "i < length A div 128" "0 \<le> bestIdx ?R"
      "ratio_test rho (Num (bestDistSq ?R)) (Num (secondDistSq ?R))" "z = bestIdx ?R"
      unfolding match_gpu_mem mm by simp_all
    have t: "nat z < ?n" "bestDistSq ?R = ?f (nat z)" "?f (nat z) < SENTINEL"
      "\<forall>j<?n. ?f (nat z) \<le> ?f j" "\<forall>j<nat z. ?f (nat z) < ?f j"
      using tracked_first_min [OF a(4)] unfolding a(6) by simp_all
    have "\<forall>k<?n. dists A B i ! nat z \<le> dists A B i ! k"
      using t(1) t(4) by (simp add: dists_nth)
    moreover have "\<forall>k<nat z. dists A B i ! nat z < dists A B i ! k"
      using t(1) t(5) by (simp add: dists_nth)
    moreover have "dists A B i ! nat z < SENTINEL"
      using t(1) t(3) by (simp add: dists_nth)
    moreover have "ratio_test rho (Num (dists A B i ! nat z))
        (Num (second_smallest (dists A B i @ [SENTINEL, SENTINEL])))"
      using t(1) t(2) a(5) sec by (simp add: dists_nth)
    ultimately show "0 \<le> z \<and> plain_match_amended A B rho i (nat z)"
      unfolding plain_match_amended_def Let_def using a(1,2,3,4,6) t(1)
      by (simp add: length_dists)
  next
    assume r: "0 \<le> z \<and> plain_match_amended A B rho i (nat z)"
    then have b: "A \<noteq> []" "B \<noteq> []" "i < length A div 128" "nat z < ?n"
      "\<forall>k<?n. dists A B i ! nat z \<le> dists A B i ! k"
      "\<forall>k<nat z. dists A B i ! nat z < dists A B i ! k" "dists A B i ! nat z < SENTINEL"
      "ratio_test rho (Num (dists A B i ! nat z))
        (Num (second_smallest (dists A B i @ [SENTINEL, SENTINEL])))"
      unfolding plain_match_amended_def Let_def by (simp_all add: length_dists)
    have c: "\<forall>k<?n. ?f (nat z) \<le> ?f k" "\<forall>k<nat z. ?f (nat z) < ?f k" "?f (nat z) < SENTINEL"
      "ratio_test rho (Num (?f (nat z)))
        (Num (second_smallest (dists A B i @ [SENTINEL, SENTINEL])))"
      using b(4) b(5) b(6) b(7) b(8) by (simp_all add: dists_nth)
    have idx: "bestIdx ?R = int (nat z)"
      by (rule tracked_first_min_unique [OF b(4) c(1) c(2) c(3)])
    then have z: "bestIdx ?R = z" using r by simp
    have "bestDistSq ?R = ?f (nat z)"
      using tracked_first_min [of ?f ?n] z r by simp
    then show "(i, z) \<in> set (match_gpu A B rho)"
      unfolding match_gpu_mem mm using b(1,2,3) c(4) z r sec by simp
  qed
qed

subsection \<open>Evaluating the matchers\<close>

lemma f32_sixtyfourths: "n \<le> 2048 \<Longrightarrow> f32 (real n / 64) = Num (real n / 64)"
  by (rule f32_representable [where m = "int n" and k = "- 6"]) simp_all

lemma f32_sixteenths: "n \<le> 2048 \<Longrightarrow> f32 (real n / 16) = Num (real n / 16)"
  by (rule f32_representable [where m = "int n" and k = "- 4"]) simp_all

lemma f64_sixtyfourths: "n \<le> 2048 \<Longrightarrow> f64 (real n / 64) = Num (real n / 64)"
  by (rule f64_representable [where m = "int n" and k = "- 6"]) simp_all

lemma f32_small:
  "f32 0 = Num 0" "f32 (1 / 8) = Num (1 / 8)" "f32 (- (1 / 8)) = Num (- (1 / 8))"
  "f32 (1 / 64) = Num (1 / 64)" "f32 (1 / 4) = Num (1 / 4)" "f32 (- (1 / 4)) = Num (- (1 / 4))"
  "f32 (1 / 16) = Num (1 / 16)"
  using f32_sixtyfourths [of 0] f32_sixtyfourths [of 8] f32_sixtyfourths [of 1]
    f32_sixtyfourths [of 16] f32_sixtyfourths [of 4]
    f32_representable [of "- (1 / 8)" "- 1" "- 3"] f32_representable [of "- (1 / 4)" "- 1" "- 2"]
  by simp_all

lemma f64_small:
  "f64 0 = Num 0" "f64 (1 / 8) = Num (1 / 8)" "f64 (- (1 / 8)) = Num (- (1 / 8))"
  "f64 (1 / 64) = Num (1 / 64)" "f64 (3 / 4) = Num (3 / 4)" "f64 (9 / 16) = Num (9 / 16)"
  "f64 2 = Num 2" "f64 4 = Num 4" "f64 8 = Num 8" "f64 (9 / 2) = Num (9 / 2)"
  using f64_sixtyfourths [of 0] f64_sixtyfourths [of 8] f64_sixtyfourths [of 1]
    f64_sixtyfourths [of 48] f64_sixtyfourths [of 36] f64_sixtyfourths [of 128]
    f64_sixtyfourths [of 256] f64_sixtyfourths [of 512] f64_sixtyfourths [of 288]
    f64_representable [of "- (1 / 8)" "- 1" "- 3"]
  by simp_all

lemma descDistSq_f32_const:
  assumes el: "\<And>k. k < 128 \<Longrightarrow> A ! (idxA * 128 + k) = a \<and> B ! (i * 128 + k) = b"
    and fa: "f32 a = Num a" and fb: "f32 b = Num b" and fc: "f32 (a - b) = Num (a - b)"
    and fs: "f32 ((a - b) * (a - b)) = Num s"
    and acc: "\<And>n. n < 128 \<Longrightarrow> f32 (real n * s + s) = Num (real (Suc n) * s)"
  shows "descDistSq_f32 A B idxA i = Num (128 * s)"
proof -
  let ?F = "\<lambda>k distSq.
             let valA = f32 (A ! (idxA * 128 + k));
                 valB = f32 (B ! (i * 128 + k));
                 diff = f32_sub valA valB
             in f32_add distSq (f32_mul diff diff)"
  have step: "?F n (Num (real n * s)) = Num (real (Suc n) * s)" if "n < 128" for n
    using el [OF that] acc [OF that]
    by (simp add: Let_def fa fb fc fs f32_sub_def f32_mul_def f32_add_def rounded_def js_sub_def)
  have "n \<le> 128 \<Longrightarrow> fold ?F [0..<n] (Num 0) = Num (real n * s)" for n
  proof (induction n)
    case 0
    show ?case by simp
  next
    case (Suc n)
    then have "n < 128" "n \<le> 128" by simp_all
    then show ?case using Suc.IH step [of n] by simp
  qed
  from this [of 128] show ?thesis
    unfolding descDistSq_f32_def DESC_DIM_def by simp
qed

lemma descDistSq_f32_zero_eighth:
  assumes "\<And>k. k < 128 \<Longrightarrow> B ! (i * 128 + k) = 1 / 8"
  shows "descDistSq_f32 zeroDesc B 0 i = Num 2"
proof -
  have "descDistSq_f32 zeroDesc B 0 i = Num (128 * (1 / 64))"
  proof (rule descDistSq_f32_const [where a = 0 and b = "1 / 8"])
    fix n :: nat
    assume "n < 128"
    then show "f32 (real n * (1 / 64) + 1 / 64) = Num (real (Suc n) * (1 / 64))"
      using f32_sixtyfourths [of "Suc n"] by (simp add: field_simps)
  qed (use assms in \<open>simp_all add: zeroDesc_def f32_small\<close>)
  then show ?thesis by simp
qed

lemma descDistSq_f32_zero_quarter:
  assumes "\<And>k. k < 128 \<Longrightarrow> B ! (i * 128 + k) = 1 / 4"
  shows "descDistSq_f32 zeroDesc B 0 i = Num 8"
proof -
  have "descDistSq_f32 zeroDesc B 0 i = Num (128 * (1 / 16))"
  proof (rule descDistSq_f32_const [where a = 0 and b = "1 / 4"])
    fix n :: nat
    assume "n < 128"
    then show "f32 (real n * (1 / 16) + 1 / 16) = Num (real (Suc n) * (1 / 16))"
      using f32_sixteenths [of "Suc n"] by (simp add: field_simps)
  qed (use assms in \<open>simp_all add: zeroDesc_def f32_small\<close>)
  then show ?thesis by simp
qed

lemma cpuDist_zero_eighth: "cpuDist zeroDesc eighthDesc = Num 2"
proof -
  let ?F = "\<lambda>k distance.
             let diff = f64_sub (elem zeroDesc k) (elem eighthDesc k)
             in f64_add distance (f64_mul diff diff)"
  have step: "?F n (Num (real n / 64)) = Num (real (Suc n) / 64)" if "n < 128" for n
  proof -
    have "f64 (real n / 64 + 1 / 64) = Num (real (Suc n) / 64)"
      using f64_sixtyfourths [of "Suc n"] that by (simp add: field_simps)
    then show ?thesis
      using that
      by (simp add: Let_def elem_def zeroDesc_def eighthDesc_def f64_small f64_sub_def
          f64_mul_def f64_add_def rounded_def js_sub_def)
  qed
  have "n \<le> 128 \<Longrightarrow> fold ?F [0..<n] (Num 0) = Num (real n / 64)" for n
  proof (induction n)
    case 0
    show ?case by simp
  next
    case (Suc n)
    then have "n < 128" "n \<le> 128" by simp_all
    then show ?case using Suc.IH step [of n] by simp
  qed
  from this [of 128] show ?thesis unfolding cpuDist_def by simp
qed

lemma SENTINEL_f32: "f32 (10 ^ 30) = Num SENTINEL"
proof -
  have b: "binade (10 ^ 30) = 99"
    by (rule binade_eqI) simp_all
  show ?thesis
    unfolding f32_def fl_round_def Let_def b SENTINEL_def
    by (simp add: round_half_even_def)
qed

lemma f64_SENTINEL_multiples:
  "f64 (9 / 16 * SENTINEL) = Num (9 / 16 * SENTINEL)"
  "f64 (4 * SENTINEL) = Num (4 * SENTINEL)"
  "f64 (1 / 2 ^ 100 * SENTINEL) = Num (1 / 2 ^ 100 * SENTINEL)"
  unfolding SENTINEL_def
  by (rule f64_representable [where m = 59557005 and k = 73], simp_all)
    (rule f64_representable [where m = 6617445 and k = 79], simp_all,
     rule f64_representable [where m = 6617445 and k = "- 23"], simp_all)

lemma f64_powers:
  "f64 (1 / 2 ^ 50) = Num (1 / 2 ^ 50)" "f64 (1 / 2 ^ 100) = Num (1 / 2 ^ 100)"
  "f64 (1 / 2 ^ 600) = Num (1 / 2 ^ 600)" "f64 (1 / 2 ^ 1200) = Num 0"
proof -
  show "f64 (1 / 2 ^ 50) = Num (1 / 2 ^ 50)"
    by (rule f64_representable [where m = 1 and k = "- 50"]) simp_all
  show "f64 (1 / 2 ^ 100) = Num (1 / 2 ^ 100)"
    by (rule f64_representable [where m = 1 and k = "- 100"]) simp_all
  show "f64 (1 / 2 ^ 600) = Num (1 / 2 ^ 600)"
    by (rule f64_representable [where m = 1 and k = "- 600"]) simp_all
  show "f64 (1 / 2 ^ 1200) = Num 0"
    unfolding f64_def by (rule fl_round_tiny) simp
qed

lemmas f64_evaluated =
  f64_powers [simplified] f64_SENTINEL_multiples [unfolded SENTINEL_def, simplified]

lemma matcher_main_two:
  "matcher_main 2 A B i
     = track_f32 (descDistSq_f32 A B i 1) 1 (track_f32 (descDistSq_f32 A B i 0) 0
         \<lparr>bestIdx32 = - 1, bestDistSq32 = Num SENTINEL, secondDistSq32 = Num SENTINEL\<rparr>)"
  by (simp add: matcher_main_def numeral_2_eq_2)

lemma pair_nth:
  "k < 128 \<Longrightarrow> (replicate 128 a @ replicate 128 b) ! (0 * 128 + k) = a"
  "k < 128 \<Longrightarrow> (replicate 128 a @ replicate 128 b) ! (1 * 128 + k) = b"
  by (simp_all add: nth_append)

theorem C4_plain_matcher_emits_witness:
  "(0, 0) \<in> set (match_gpu zeroDesc (eighthDesc @ quarterDesc) (3 / 4))
   \<and> plain_match_amended zeroDesc (eighthDesc @ quarterDesc) (3 / 4) 0 0"
proof -
  have d0: "descDistSq_f32 zeroDesc (eighthDesc @ quarterDesc) 0 0 = Num 2"
    by (rule descDistSq_f32_zero_eighth) (simp add: eighthDesc_def quarterDesc_def nth_append)
  have d1: "descDistSq_f32 zeroDesc (eighthDesc @ quarterDesc) 0 1 = Num 8"
    by (rule descDistSq_f32_zero_quarter) (simp add: eighthDesc_def quarterDesc_def nth_append)
  have m: "matcher_main 2 zeroDesc (eighthDesc @ quarterDesc) 0
        = \<lparr>bestIdx32 = 0, bestDistSq32 = Num 2, secondDistSq32 = Num 8\<rparr>"
    unfolding matcher_main_two d0 d1 by (simp add: track_f32_def SENTINEL_def)
  have "(0, 0) \<in> set (match_gpu zeroDesc (eighthDesc @ quarterDesc) (3 / 4))"
    unfolding match_gpu_mem
    by (simp add: m ratio_test_def f64_mul_def rounded_def f64_small)
  then show ?thesis
    using C4_plain_matcher_emits [of 0 0 zeroDesc "eighthDesc @ quarterDesc" "3 / 4"] by simp
qed

text \<open>
  Claim C4 as stated fails on ties when \<open>rho > 1\<close>: with two candidates at the same
  squared distance 2 from the query (exact in \<open>f32\<close>) and \<open>rho = 2\<close>, index 1 achieves
  the minimum, the best index is 0 and \<open>2 < 4 * 2\<close>, yet only \<open>(0, 0)\<close> is emitted.
\<close>

theorem C4_plain_matcher_counterexample:
  "plain_match_claim zeroDesc (eighthDesc @ eighthDesc) 2 0 1
   \<and> (0, 0) \<in> set (match_gpu zeroDesc (eighthDesc @ eighthDesc) 2)
   \<and> (0, 1) \<notin> set (match_gpu zeroDesc (eighthDesc @ eighthDesc) 2)"
proof -
  have d0: "descDistSq_f32 zeroDesc (eighthDesc @ eighthDesc) 0 0 = Num 2"
    by (rule descDistSq_f32_zero_eighth) (simp add: eighthDesc_def nth_append)
  have d1: "descDistSq_f32 zeroDesc (eighthDesc @ eighthDesc) 0 1 = Num 2"
    by (rule descDistSq_f32_zero_eighth) (simp add: eighthDesc_def nth_append)
  have m: "matcher_main 2 zeroDesc (eighthDesc @ eighthDesc) 0
        = \<lparr>bestIdx32 = 0, bestDistSq32 = Num 2, secondDistSq32 = Num 2\<rparr>"
    unfolding matcher_main_two d0 d1 by (simp add: track_f32_def SENTINEL_def)
  have d: "exact_dists zeroDesc (eighthDesc @ eighthDesc) 0 = [2, 2]"
    by (simp add: exact_dists_def eighthDesc_def numeral_2_eq_2 descDistSq_zero_pair
        power2_eq_square)
  have "plain_match_claim zeroDesc (eighthDesc @ eighthDesc) 2 0 1"
    unfolding plain_match_claim_def Let_def d by (simp add: m second_smallest_def)
  moreover have "(0, 0) \<in> set (match_gpu zeroDesc (eighthDesc @ eighthDesc) 2)"
    unfolding match_gpu_mem
    by (simp add: m ratio_test_def f64_mul_def rounded_def f64_small)
  moreover have "(0, 1) \<notin> set (match_gpu zeroDesc (eighthDesc @ eighthDesc) 2)"
    unfolding match_gpu_mem by (simp add: m)
  ultimately show ?thesis by blast
qed

subsection \<open>A sole candidate\<close>

lemma matcher_main_sole:
  "matcher_main (Suc 0) A B i =
     (if js_lt (descDistSq_f32 A B i 0) (Num SENTINEL)
      then \<lparr>bestIdx32 = 0, bestDistSq32 = descDistSq_f32 A B i 0, secondDistSq32 = Num SENTINEL\<rparr>
      else \<lparr>bestIdx32 = - 1, bestDistSq32 = Num SENTINEL, secondDistSq32 = Num SENTINEL\<rparr>)"
  by (simp add: matcher_main_def track_f32_def)

lemma match_gpu_sole:
  assumes "length B = 128"
  shows "(i, z) \<in> set (match_gpu A B rho) \<longleftrightarrow>
     A \<noteq> [] \<and> i < length A div 128 \<and> z = 0 \<and> js_lt (descDistSq_f32 A B i 0) (Num SENTINEL)
     \<and> ratio_test rho (descDistSq_f32 A B i 0) (Num SENTINEL)"
  unfolding match_gpu_mem using assms by (auto simp: matcher_main_sole)

lemma cpuDist_not_negative: "not_negative (cpuDist d1 d2)"
proof -
  have "not_negative acc \<Longrightarrow> not_negative (fold (\<lambda>k distance.
             let diff = f64_sub (elem d1 k) (elem d2 k)
             in f64_add distance (f64_mul diff diff)) ks acc)" for ks acc
  proof (induction ks arbitrary: acc)
    case Nil
    then show ?case by simp
  next
    case (Cons k ks)
    let ?d = "f64_sub (elem d1 k) (elem d2 k)"
    have "not_negative (f64_mul ?d ?d)"
      unfolding f64_mul_def by (rule mul_self_not_negative) (rule not_negative_f64)
    then have "not_negative (f64_add acc (f64_mul ?d ?d))"
      unfolding f64_add_def using Cons.prems
      by (intro add_not_negative) (simp_all add: not_negative_f64)
    then show ?case using Cons.IH by (simp add: Let_def)
  qed
  then show ?thesis unfolding cpuDist_def by (simp add: not_negative_def)
qed

lemma cpu_search_sole:
  "cpu_search d1 [d2] =
     (if js_lt (cpuDist d1 d2) PosInf
      then \<lparr>bestDist = cpuDist d1 d2, secondBestDist = PosInf, bestIdxC = 0\<rparr>
      else \<lparr>bestDist = PosInf, secondBestDist = PosInf, bestIdxC = - 1\<rparr>)"
  by (simp add: cpu_search_def cpu_track_def)

lemma ratioSq_cases:
  "(\<exists>q\<ge>0. f64_mul (f64 rho) (f64 rho) = Num q) \<or> f64_mul (f64 rho) (f64 rho) = PosInf"
proof -
  have n: "not_negative (f64_mul (f64 rho) (f64 rho))"
    unfolding f64_mul_def by (rule mul_self_not_negative) (rule not_negative_f64)
  have "f64_mul (f64 rho) (f64 rho) \<noteq> NaN"
    by (cases "f64 rho") (simp_all add: f64_mul_def rounded_def f64_def)
  then show ?thesis using n by (cases "f64_mul (f64 rho) (f64 rho)") (simp_all add: not_negative_def)
qed

lemma sole_ratio_test:
  assumes "js_lt d PosInf" and "not_negative d"
  shows "js_lt d (f64_mul (f64_mul (f64 rho) (f64 rho)) PosInf)
         \<longleftrightarrow> f64_mul (f64 rho) (f64 rho) \<noteq> Num 0"
proof -
  obtain x where d: "d = Num x" using assms by (cases d) (simp_all add: not_negative_def)
  from ratioSq_cases [of rho] show ?thesis
  proof
    assume "\<exists>q\<ge>0. f64_mul (f64 rho) (f64 rho) = Num q"
    then obtain q where q: "0 \<le> q" "f64_mul (f64 rho) (f64 rho) = Num q" by blast
    show ?thesis
      unfolding q(2) d using q(1) by (cases "q = 0") (simp_all add: f64_mul_def rounded_def)
  next
    assume "f64_mul (f64 rho) (f64 rho) = PosInf"
    then show ?thesis unfolding d by (simp add: f64_mul_def rounded_def)
  qed
qed

lemma matchStatic_sole:
  "matchStatic D1 [d2] rho =
     concat (map (\<lambda>i. if js_lt (cpuDist (D1 ! i) d2) PosInf
                          \<and> f64_mul (f64 rho) (f64 rho) \<noteq> Num 0
                       then [(i, 0)] else []) [0..<length D1])"
proof -
  have one: "(let st = cpu_search d1 [d2] in
       if js_lt (bestDist st) (f64_mul (f64_mul (f64 rho) (f64 rho)) (secondBestDist st))
       then [(i, bestIdxC st)] else [])
     = (if js_lt (cpuDist d1 d2) PosInf \<and> f64_mul (f64 rho) (f64 rho) \<noteq> Num 0
        then [(i, 0)] else [])" for i :: nat and d1
  proof (cases "js_lt (cpuDist d1 d2) PosInf")
    case True
    show ?thesis
      using True sole_ratio_test [OF True cpuDist_not_negative, of rho]
      by (simp add: cpu_search_sole)
  next
    case False
    then show ?thesis by (simp add: cpu_search_sole)
  qed
  show ?thesis unfolding matchStatic_def one ..
qed

text \<open>
  Claim C10, as amended. With exactly one candidate descriptor: the GPU matcher emits
  \<open>(i, 0)\<close> for query \<open>i\<close> iff the squared distance \<open>d\<close> it computes is below the
  start value \<open>1e30\<close> and passes the ratio test against the start value,
  \<open>d < (rho * rho) * 1e30\<close> in binary64 (the second-best distance keeps its start
  value); the CPU matcher, whose start value is \<open>Infinity\<close>, emits \<open>(i, 0)\<close> iff the
  squared distance it computes is finite and \<open>rho * rho\<close> is not zero in binary64.
\<close>

theorem C10_sole_candidate:
  assumes "0 < rho" and "length B = 128"
  shows "((i, z) \<in> set (match_gpu A B rho) \<longleftrightarrow>
            A \<noteq> [] \<and> i < length A div 128 \<and> z = 0
            \<and> js_lt (descDistSq_f32 A B i 0) (Num SENTINEL)
            \<and> ratio_test rho (descDistSq_f32 A B i 0) (Num SENTINEL))
         \<and> matchStatic D1 [d2] rho =
             concat (map (\<lambda>i. if js_lt (cpuDist (D1 ! i) d2) PosInf
                                  \<and> f64_mul (f64 rho) (f64 rho) \<noteq> Num 0
                               then [(i, 0)] else []) [0..<length D1])"
  using assms(2) match_gpu_sole matchStatic_sole by simp

theorem C10_sole_candidate_witness:
  "(0 :: real) < 3 / 4 \<and> length eighthDesc = 128
   \<and> (0, 0) \<in> set (match_gpu zeroDesc eighthDesc (3 / 4))
   \<and> matchStatic [zeroDesc] [eighthDesc] (3 / 4) = [(0, 0)]"
proof -
  have d: "descDistSq_f32 zeroDesc eighthDesc 0 0 = Num 2"
    by (rule descDistSq_f32_zero_eighth) (simp add: eighthDesc_def)
  show ?thesis
    using C10_sole_candidate [of "3 / 4" eighthDesc 0 0 zeroDesc "[zeroDesc]" eighthDesc]
    by (simp add: d cpuDist_zero_eighth ratio_test_def f64_mul_def rounded_def f64_small
        f64_evaluated SENTINEL_def)
qed

text \<open>
  Claim C10 as stated fails. On the GPU, with \<open>rho = 2^-50 > 0\<close> and a sole candidate
  at squared distance 2, the test \<open>2 < 2^-100 * 1e30\<close> rejects it and nothing is emitted.
  On the CPU, with \<open>rho = 2^-600 > 0\<close> the product \<open>rho * rho\<close> underflows to 0,
  \<open>0 * Infinity\<close> is NaN, and the sole candidate at the finite squared distance 2 is
  rejected.
\<close>

theorem C10_sole_candidate_counterexample:
  "(0 :: real) < 1 / 2 ^ 50 \<and> length eighthDesc = 128 \<and> length zeroDesc = 128
   \<and> descDistSq_f32 zeroDesc eighthDesc 0 0 = Num 2
   \<and> match_gpu zeroDesc eighthDesc (1 / 2 ^ 50) = []
   \<and> (0 :: real) < 1 / 2 ^ 600 \<and> cpuDist zeroDesc eighthDesc = Num 2
   \<and> matchStatic [zeroDesc] [eighthDesc] (1 / 2 ^ 600) = []"
proof -
  have d: "descDistSq_f32 zeroDesc eighthDesc 0 0 = Num 2"
    by (rule descDistSq_f32_zero_eighth) (simp add: eighthDesc_def)
  have r: "\<not> ratio_test (1 / 2 ^ 50) (Num 2) (Num SENTINEL)"
    unfolding ratio_test_def
    by (simp add: f64_mul_def rounded_def f64_evaluated SENTINEL_def)
  have none: "(i, z) \<notin> set (match_gpu zeroDesc eighthDesc (1 / 2 ^ 50))" for i z
    unfolding match_gpu_sole [of eighthDesc, OF length_descs(2)]
    using r by (cases "i = 0") (simp_all add: d)
  have g: "match_gpu zeroDesc eighthDesc (1 / 2 ^ 50) = []"
  proof (cases "match_gpu zeroDesc eighthDesc (1 / 2 ^ 50)")
    case Nil
    then show ?thesis .
  next
    case (Cons p ps)
    then have "(fst p, snd p) \<in> set (match_gpu zeroDesc eighthDesc (1 / 2 ^ 50))" by simp
    then show ?thesis using none by blast
  qed
  have z: "f64_mul (f64 (1 / 2 ^ 600)) (f64 (1 / 2 ^ 600)) = Num 0"
    by (simp add: f64_mul_def rounded_def f64_evaluated)
  have c: "matchStatic [zeroDesc] [eighthDesc] (1 / 2 ^ 600) = []"
    unfolding matchStatic_sole z by simp
  show ?thesis using d g c by (simp add: cpuDist_zero_eighth)
qed

text \<open>
  Claim C5 at a failing input. Query keypoint (0, 0), F the fundamental matrix of a pure
  horizontal translation (epipolar line \<open>y' = 0\<close>), two candidates on that line with equal
  descriptors: best and second-best squared distance are both 2, so the ratio test with
  \<open>rho = 0.75\<close> fails, and \<open>matchGuided\<close> still emits \<open>(0, 0)\<close>: it tests only
  \<open>bestIdx >= 0\<close>.
\<close>

theorem C5_guided_matcher_skips_ratio_test:
  "matchGuided zeroDesc (eighthDesc @ eighthDesc) [(0, 0)] [(5, 0), (7, 0)]
      ((0, 0, 0), (0, 0, - 1), (0, 1, 0)) 5 = Inr [(0, 0)]
   \<and> guided_main 2 5 (0, 0, 0) (0, 0, 1) (0, - 1, 0) zeroDesc (eighthDesc @ eighthDesc)
        [(0, 0)] [(5, 0), (7, 0)] 0 = \<lparr>bestIdx = 0, bestDistSq = 2, secondDistSq = 2\<rparr>
   \<and> \<not> (2 :: real) < 3 / 4 * (3 / 4) * 2"
proof -
  have g: "guided_main 2 5 (0, 0, 0) (0, 0, 1) (0, - 1, 0) zeroDesc (eighthDesc @ eighthDesc)
        [(0, 0)] [(5, 0), (7, 0)] 0 = \<lparr>bestIdx = 0, bestDistSq = 2, secondDistSq = 2\<rparr>"
    by (simp add: guided_main_def numeral_2_eq_2 eighthDesc_def descDistSq_zero_pair track_def
        SENTINEL_def power2_eq_square)
  have "matchGuided zeroDesc (eighthDesc @ eighthDesc) [(0, 0)] [(5, 0), (7, 0)]
      ((0, 0, 0), (0, 0, - 1), (0, 1, 0)) 5 = Inr [(0, 0)]"
    unfolding matchGuided_def Let_def by (simp add: g)
  then show ?thesis using g by simp
qed

section \<open>Orientation assignment\<close>




















section \<open>Descriptor extraction\<close>

subsection \<open>The clamp\<close>


















subsection \<open>A histogram with one non-zero bin\<close>






















text \<open>
  Claim C8 at a failing input. At the first grid offset \<open>(r, c) = (-8, -8)\<close> with
  magnitude 1 the shaders weight by \<open>exp(-(r^2 + c^2)/128) = exp(-1)\<close>, as the claim
  says, and the CPU reference by \<open>exp(-(r^2 + c^2)/32) = exp(-4)\<close>, less than half of it.
\<close>

theorem C8_cpu_gaussian_weight:
  "sb_weight (cpu_sample_bins (- 8) (- 8) 1 0) = exp (- 4)
   \<and> sb_weight (gpu_sample_bins (- 8) (- 8) 1 0) = 1 * exp (- ((- 8)\<^sup>2 + (- 8)\<^sup>2) / 128)
   \<and> 2 * sb_weight (cpu_sample_bins (- 8) (- 8) 1 0) < 1 * exp (- ((- 8)\<^sup>2 + (- 8)\<^sup>2) / 128)"
proof -
  have c: "sb_weight (cpu_sample_bins (- 8) (- 8) 1 0) = exp (- 4)"
    by (simp add: cpu_sample_bins_def)
  have g: "sb_weight (gpu_sample_bins (- 8) (- 8) 1 0) = exp (- 1)"
    by (simp add: gpu_sample_bins_def DESC_GAUSSIAN_WEIGHT_SIGMA_SQ_def)
  have "(2::real) < 1 + 3" by simp
  also have "\<dots> \<le> exp (3::real)" by (rule exp_ge_add_one_self)
  finally have "2 * exp (- 4 :: real) < exp 3 * exp (- 4)" by simp
  also have "\<dots> = exp (- 1 :: real)" by (simp add: exp_add [symmetric])
  finally have "2 * exp (- 4 :: real) < exp (- 1)" .
  then show ?thesis using c g by simp
qed

subsection \<open>Binary descriptor file: write, then read\<close>


lemma bindE_Inr [simp]: "bindE (Inr x) f = f x"
  by (simp add: bindE_def)

lemma bindE_Inl [simp]: "bindE (Inl e) f = Inl e"
  by (simp add: bindE_def)

lemma length_u32_bytes [simp]: "length (u32_bytes w) = 4"
  by (simp add: u32_bytes_def)

lemma bytes_u32_u32_bytes:
  "bytes_u32 (ucast w) (ucast (drop_bit 8 w)) (ucast (drop_bit 16 w)) (ucast (drop_bit 24 w)) = w"
  unfolding bytes_u32_def
proof (rule bit_word_eqI)
  fix n :: nat
  assume "n < LENGTH(32)"
  then have n: "n < 32" by simp
  consider "n < 8" | "8 \<le> n" "n < 16" | "16 \<le> n" "n < 24" | "24 \<le> n"
    by linarith
  then show "bit (ucast (ucast w :: byte) OR push_bit 8 (ucast (ucast (drop_bit 8 w) :: byte))
        OR push_bit 16 (ucast (ucast (drop_bit 16 w) :: byte))
        OR push_bit 24 (ucast (ucast (drop_bit 24 w) :: byte)) :: 32 word) n = bit w n"
    using n by cases (auto simp: bit_simps)
qed

lemma write_bytes_at:
  "view = pre @ old @ post \<Longrightarrow> off = length pre \<Longrightarrow> length old = length bs \<Longrightarrow>
   write_bytes view off bs = Inr (pre @ bs @ post)"
  by (simp add: write_bytes_def)

lemma read_u32_at:
  "view = pre @ u32_bytes w @ post \<Longrightarrow> off = length pre \<Longrightarrow> read_u32 view off = Inr w"
  by (simp add: read_u32_def u32_bytes_def nth_append bytes_u32_u32_bytes)


lemma is_nan32_quiet: "is_nan32 w \<Longrightarrow> is_nan32 (w OR 0x00400000)"
proof -
  assume a: "is_nan32 w"
  have e: "(w OR 0x00400000) AND 0x7F800000 = (w AND 0x7F800000) OR (0x00400000 AND 0x7F800000)"
    by (simp add: bit.conj_disj_distrib2)
  have q: "(0x00400000 :: 32 word) AND 0x007FFFFF = 0x00400000" "(0x00400000 :: 32 word) AND 0x7F800000 = 0"
    by simp_all
  have f: "(w OR 0x00400000) AND 0x007FFFFF = (w AND 0x007FFFFF) OR 0x00400000"
    using q(1) by (simp add: bit.conj_disj_distrib2)
  have n: "(w AND 0x007FFFFF) OR 0x00400000 \<noteq> 0"
    by (simp add: or_eq_0_iff)
  show ?thesis
    using a unfolding is_nan32_def e f q(2) using n by simp
qed

lemma number_bits_idem [simp]: "number_bits (number_bits w) = number_bits w"
  by (simp add: number_bits_def is_nan32_quiet or.assoc)

lemma same_f32_number_bits: "same_f32 w (number_bits w)"
  by (simp add: same_f32_def number_bits_def is_nan32_quiet)

lemma stored_keypoint_idem [simp]: "stored_keypoint (stored_keypoint kp) = stored_keypoint kp"
  by (simp add: stored_keypoint_def)

lemma stored_keypoint_descriptor [simp]:
  "length (kp_descriptor (stored_keypoint kp)) = length (kp_descriptor kp)"
  by (simp add: stored_keypoint_def)

lemma same_stored_keypoint: "same_keypoint kp (stored_keypoint kp)"
  by (simp add: same_keypoint_def stored_keypoint_def same_f32_number_bits list_all2_map2
      list_all2_same)

lemma length_desc_bytes [simp]: "length (desc_bytes d) = 4 * length d"
  by (induction d) (simp_all add: desc_bytes_def)

lemma length_kp_bytes [simp]: "length (kp_bytes kp) = 20 + 4 * length (kp_descriptor kp)"
  by (simp add: kp_bytes_def)

lemma length_header_bytes [simp]: "length (header_bytes n w h) = 32"
  by (simp add: header_bytes_def)

lemma write_descriptor_at:
  "length pre = offset + 20 + i * 4 \<Longrightarrow> length zs = 4 * n \<Longrightarrow> length d = i + n \<Longrightarrow>
   write_descriptor d offset i n (pre @ zs @ post)
     = Inr (pre @ desc_bytes (map number_bits (drop i d)) @ post)"
proof (induction n arbitrary: i pre zs)
  case 0
  then show ?case by (simp add: desc_bytes_def)
next
  case (Suc n)
  have i: "i < length d" using Suc.prems by simp
  let ?b = "u32_bytes (number_bits (d ! i))"
  have split: "pre @ zs @ post = pre @ take 4 zs @ (drop 4 zs @ post)" by simp
  have w: "setFloat32 (pre @ zs @ post) (offset + 20 + i * 4) (d ! i)
            = Inr (pre @ ?b @ (drop 4 zs @ post))"
    unfolding setFloat32_def
    by (rule write_bytes_at [OF split]) (use Suc.prems in simp_all)
  have ih: "write_descriptor d offset (Suc i) n ((pre @ ?b) @ drop 4 zs @ post)
            = Inr ((pre @ ?b) @ desc_bytes (map number_bits (drop (Suc i) d)) @ post)"
    by (rule Suc.IH) (use Suc.prems in simp_all)
  have d: "desc_bytes (map number_bits (drop i d))
           = ?b @ desc_bytes (map number_bits (drop (Suc i) d))"
    using i by (simp add: desc_bytes_def Cons_nth_drop_Suc [symmetric])
  show ?case using i w ih d by simp
qed

lemma write_keypoint_at:
  assumes d: "length (kp_descriptor kp) = 128" and z: "length zs = 532" and o: "offset = length pre"
  shows "write_keypoint kp offset (pre @ zs @ post)
         = Inr (pre @ kp_bytes (stored_keypoint kp) @ post)"
proof -
  define z1 r1 where "z1 = take 4 zs" and "r1 = drop 4 zs"
  define z2 r2 where "z2 = take 4 r1" and "r2 = drop 4 r1"
  define z3 r3 where "z3 = take 4 r2" and "r3 = drop 4 r2"
  define z4 r4 where "z4 = take 4 r3" and "r4 = drop 4 r3"
  define z5 r5 where "z5 = take 4 r4" and "r5 = drop 4 r4"
  have 1: "zs = z1 @ r1" "length z1 = 4" "length r1 = 528"
    by (simp_all add: z1_def r1_def z)
  have 2: "r1 = z2 @ r2" "length z2 = 4" "length r2 = 524"
    by (simp_all add: z2_def r2_def 1)
  have 3: "r2 = z3 @ r3" "length z3 = 4" "length r3 = 520"
    by (simp_all add: z3_def r3_def 2)
  have 4: "r3 = z4 @ r4" "length z4 = 4" "length r4 = 516"
    by (simp_all add: z4_def r4_def 3)
  have 5: "r4 = z5 @ r5" "length z5 = 4" "length r5 = 512"
    by (simp_all add: z5_def r5_def 4)
  let ?x = "u32_bytes (number_bits (kp_x kp))" and ?y = "u32_bytes (number_bits (kp_y kp))"
    and ?s = "u32_bytes (number_bits (kp_scale kp))"
    and ?t = "u32_bytes (number_bits (kp_orientation kp))"
    and ?c = "u32_bytes (kp_octave kp)"
  have w1: "setFloat32 (pre @ zs @ post) (offset + 0) (kp_x kp)
              = Inr (pre @ ?x @ (r1 @ post))"
    unfolding setFloat32_def
    by (rule write_bytes_at [where old = z1]) (simp_all add: 1 o)
  have w2: "setFloat32 (pre @ ?x @ (r1 @ post)) (offset + 4) (kp_y kp)
              = Inr ((pre @ ?x) @ ?y @ (r2 @ post))"
    unfolding setFloat32_def
    by (rule write_bytes_at [where old = z2]) (simp_all add: 2 o)
  have w3: "setFloat32 ((pre @ ?x) @ ?y @ (r2 @ post)) (offset + 8) (kp_scale kp)
              = Inr ((pre @ ?x @ ?y) @ ?s @ (r3 @ post))"
    unfolding setFloat32_def
    by (rule write_bytes_at [where old = z3]) (simp_all add: 3 o)
  have w4: "setFloat32 ((pre @ ?x @ ?y) @ ?s @ (r3 @ post)) (offset + 12) (kp_orientation kp)
              = Inr ((pre @ ?x @ ?y @ ?s) @ ?t @ (r4 @ post))"
    unfolding setFloat32_def
    by (rule write_bytes_at [where old = z4]) (simp_all add: 4 o)
  have oct: "(if kp_octave kp = 0 then 0 else kp_octave kp) = kp_octave kp" by simp
  have w5: "setInt32 ((pre @ ?x @ ?y @ ?s) @ ?t @ (r4 @ post)) (offset + 16)
                (if kp_octave kp = 0 then 0 else kp_octave kp)
              = Inr ((pre @ ?x @ ?y @ ?s @ ?t) @ ?c @ (r5 @ post))"
    unfolding setInt32_def oct
    by (rule write_bytes_at [where old = z5]) (simp_all add: 5 o)
  have w6: "write_descriptor (kp_descriptor kp) offset 0 128
                ((pre @ ?x @ ?y @ ?s @ ?t @ ?c) @ r5 @ post)
              = Inr ((pre @ ?x @ ?y @ ?s @ ?t @ ?c)
                  @ desc_bytes (map number_bits (drop 0 (kp_descriptor kp))) @ post)"
    by (rule write_descriptor_at) (simp_all add: 5 o d)
  show ?thesis
    unfolding write_keypoint_def using w1 w2 w3 w4 w5 w6
    by (simp add: kp_bytes_def stored_keypoint_def)
qed

lemma write_keypoints_at:
  "\<forall>kp \<in> set kps. length (kp_descriptor kp) = 128 \<Longrightarrow> length zs = 532 * length kps \<Longrightarrow>
   offset = length pre \<Longrightarrow>
   write_keypoints kps offset (pre @ zs)
     = Inr (pre @ concat (map kp_bytes (map stored_keypoint kps)))"
proof (induction kps arbitrary: offset pre zs)
  case Nil
  then show ?case by simp
next
  case (Cons kp kps)
  let ?k = "kp_bytes (stored_keypoint kp)"
  have s: "zs = take 532 zs @ drop 532 zs" by simp
  have w: "write_keypoint kp offset (pre @ take 532 zs @ drop 532 zs)
           = Inr (pre @ ?k @ drop 532 zs)"
    by (rule write_keypoint_at) (use Cons.prems in simp_all)
  have ih: "write_keypoints kps (offset + FEATURE_SIZE_V2) ((pre @ ?k) @ drop 532 zs)
           = Inr ((pre @ ?k) @ concat (map kp_bytes (map stored_keypoint kps)))"
    by (rule Cons.IH) (use Cons.prems in \<open>simp_all add: FEATURE_SIZE_V2_def\<close>)
  show ?case using w ih by (subst s) simp
qed

lemma serializeBinary_bytes:
  assumes "\<forall>kp \<in> set kps. length (kp_descriptor kp) = 128"
  shows "serializeBinary kps w h = Inr (header_bytes (length kps) w h @ concat (map kp_bytes (map stored_keypoint kps)))"
proof -
  let ?n = "length kps"
  let ?body = "replicate (?n * FEATURE_SIZE_V2) (0 :: byte)"
  have hd: "replicate 32 (0 :: byte)
             = [0, 0, 0, 0] @ replicate 4 0 @ replicate 4 0 @ replicate 4 0 @ replicate 4 0
               @ replicate 4 0 @ replicate 8 0"
    by (simp add: numeral_eq_Suc)
  have buf: "replicate (HEADER_SIZE + ?n * FEATURE_SIZE_V2) (0 :: byte)
             = [0, 0, 0, 0] @ replicate 4 0 @ replicate 4 0 @ replicate 4 0 @ replicate 4 0
               @ replicate 4 0 @ replicate 8 0 @ ?body"
    unfolding HEADER_SIZE_def replicate_add hd by simp
  have w: "write_keypoints kps HEADER_SIZE (header_bytes ?n w h @ ?body)
           = Inr (header_bytes ?n w h @ concat (map kp_bytes (map stored_keypoint kps)))"
    by (rule write_keypoints_at) (use assms in \<open>simp_all add: HEADER_SIZE_def FEATURE_SIZE_V2_def\<close>)
  have hdr: "bindE (setUint8 ([0, 0, 0, 0] @ replicate 4 0 @ replicate 4 0 @ replicate 4 0
               @ replicate 4 0 @ replicate 4 0 @ replicate 8 0 @ ?body) 0 0x57) (\<lambda>view.
      bindE (setUint8 view 1 0x53) (\<lambda>view.
      bindE (setUint8 view 2 0x46) (\<lambda>view.
      bindE (setUint8 view 3 0x54) (\<lambda>view.
      bindE (setUint32 view 4 1) (\<lambda>view.
      bindE (setUint32 view 8 ?n) (\<lambda>view.
      bindE (setUint32 view 12 128) (\<lambda>view.
      bindE (setUint32 view 16 w) (\<lambda>view.
      bindE (setUint32 view 20 h) (\<lambda>view.
      write_keypoints kps HEADER_SIZE view)))))))))
      = write_keypoints kps HEADER_SIZE (header_bytes ?n w h @ ?body)"
    by (simp add: setUint8_def setUint32_def write_bytes_def header_bytes_def)
  show ?thesis
    unfolding serializeBinary_def Let_def buf hdr w ..
qed


lemma getFloat32_at:
  "view = pre @ u32_bytes w @ post \<Longrightarrow> off = length pre \<Longrightarrow>
   getFloat32 view off = Inr (number_bits w)"
  unfolding getFloat32_def by (simp add: read_u32_at)

lemma read_descriptor_at:
  "length pre = offset + 20 + j * 4 \<Longrightarrow>
   read_descriptor (pre @ desc_bytes d @ post) offset j (length d) = Inr (map number_bits d)"
proof (induction d arbitrary: j pre)
  case Nil
  then show ?case by simp
next
  case (Cons v d)
  have r: "getFloat32 (pre @ desc_bytes (v # d) @ post) (offset + 20 + j * 4)
           = Inr (number_bits v)"
    by (rule getFloat32_at [where pre = pre and post = "desc_bytes d @ post"])
      (use Cons.prems in \<open>simp_all add: desc_bytes_def\<close>)
  have ih: "read_descriptor ((pre @ u32_bytes v) @ desc_bytes d @ post) offset (Suc j) (length d)
            = Inr (map number_bits d)"
    by (rule Cons.IH) (use Cons.prems in simp)
  have e: "pre @ desc_bytes (v # d) @ post = (pre @ u32_bytes v) @ desc_bytes d @ post"
    by (simp add: desc_bytes_def)
  show ?case using r ih unfolding e by simp
qed

lemma read_keypoint_at:
  assumes o: "offset = length pre"
  shows "read_keypoint (pre @ kp_bytes kp @ post) offset (length (kp_descriptor kp))
         = Inr (stored_keypoint kp)"
proof -
  let ?x = "u32_bytes (kp_x kp)" and ?y = "u32_bytes (kp_y kp)"
    and ?s = "u32_bytes (kp_scale kp)" and ?t = "u32_bytes (kp_orientation kp)"
    and ?c = "u32_bytes (kp_octave kp)" and ?d = "desc_bytes (kp_descriptor kp)"
  let ?v = "pre @ kp_bytes kp @ post"
  have r1: "getFloat32 ?v (offset + 0) = Inr (number_bits (kp_x kp))"
    by (rule getFloat32_at [where pre = pre and post = "?y @ ?s @ ?t @ ?c @ ?d @ post"])
      (simp_all add: kp_bytes_def o)
  have r2: "getFloat32 ?v (offset + 4) = Inr (number_bits (kp_y kp))"
    by (rule getFloat32_at [where pre = "pre @ ?x" and post = "?s @ ?t @ ?c @ ?d @ post"])
      (simp_all add: kp_bytes_def o)
  have r3: "getFloat32 ?v (offset + 8) = Inr (number_bits (kp_scale kp))"
    by (rule getFloat32_at [where pre = "pre @ ?x @ ?y" and post = "?t @ ?c @ ?d @ post"])
      (simp_all add: kp_bytes_def o)
  have r4: "getFloat32 ?v (offset + 12) = Inr (number_bits (kp_orientation kp))"
    by (rule getFloat32_at [where pre = "pre @ ?x @ ?y @ ?s" and post = "?c @ ?d @ post"])
      (simp_all add: kp_bytes_def o)
  have r5: "getInt32 ?v (offset + 16) = Inr (kp_octave kp)"
    unfolding getInt32_def
    by (rule read_u32_at [where pre = "pre @ ?x @ ?y @ ?s @ ?t" and post = "?d @ post"])
      (simp_all add: kp_bytes_def o)
  have e: "?v = (pre @ ?x @ ?y @ ?s @ ?t @ ?c) @ ?d @ post"
    by (simp add: kp_bytes_def)
  have r6: "read_descriptor ?v offset 0 (length (kp_descriptor kp))
            = Inr (map number_bits (kp_descriptor kp))"
    unfolding e by (rule read_descriptor_at) (simp add: o)
  show ?thesis
    unfolding read_keypoint_def using r1 r2 r3 r4 r5 r6 by (simp add: stored_keypoint_def)
qed

lemma read_keypoints_at:
  "\<forall>kp \<in> set kps. length (kp_descriptor kp) = dimension \<Longrightarrow> offset = length pre \<Longrightarrow>
   read_keypoints (pre @ concat (map kp_bytes kps)) offset dimension (20 + dimension * 4)
     (length kps) = Inr (map stored_keypoint kps)"
proof (induction kps arbitrary: offset pre)
  case Nil
  then show ?case by simp
next
  case (Cons kp kps)
  have d: "length (kp_descriptor kp) = dimension" using Cons.prems by simp
  have r: "read_keypoint (pre @ kp_bytes kp @ concat (map kp_bytes kps)) offset dimension
           = Inr (stored_keypoint kp)"
    using read_keypoint_at [of offset pre kp "concat (map kp_bytes kps)"] Cons.prems d by simp
  have ih: "read_keypoints ((pre @ kp_bytes kp) @ concat (map kp_bytes kps))
              (offset + (20 + dimension * 4)) dimension (20 + dimension * 4) (length kps)
            = Inr (map stored_keypoint kps)"
    by (rule Cons.IH) (use Cons.prems d in simp_all)
  show ?case using r ih by simp
qed

lemma loadBinary_bytes:
  assumes d: "\<forall>kp \<in> set kps. length (kp_descriptor kp) = 128"
    and n: "length kps < 2 ^ 32" and w: "w < 2 ^ 32" and h: "h < 2 ^ 32"
  shows "loadBinary (header_bytes (length kps) w h @ concat (map kp_bytes kps))
         = Inr \<lparr>lf_keypoints = map stored_keypoint kps, lf_width = w, lf_height = h,
              lf_version = 1\<rparr>"
proof -
  let ?n = "length kps"
  let ?body = "concat (map kp_bytes kps)"
  let ?m = "[0x57, 0x53, 0x46, 0x54] :: byte list"
  let ?v = "header_bytes ?n w h @ ?body"
  let ?u1 = "u32_bytes 1" and ?un = "u32_bytes (of_nat ?n)" and ?ud = "u32_bytes 128"
    and ?uw = "u32_bytes (of_nat w)" and ?uh = "u32_bytes (of_nat h)"
  have m: "getUint8 ?v 0 = Inr 0x57" "getUint8 ?v 1 = Inr 0x53"
    "getUint8 ?v 2 = Inr 0x46" "getUint8 ?v 3 = Inr 0x54"
    by (simp_all add: getUint8_def header_bytes_def)
  have g1: "getUint32 ?v 4 = Inr 1"
    unfolding getUint32_def
    by (subst read_u32_at [where pre = ?m and w = 1
          and post = "?un @ ?ud @ ?uw @ ?uh @ replicate 8 0 @ ?body"])
      (simp_all add: header_bytes_def)
  have g2: "getUint32 ?v 8 = Inr ?n"
    unfolding getUint32_def
    by (subst read_u32_at [where pre = "?m @ ?u1" and w = "of_nat ?n"
          and post = "?ud @ ?uw @ ?uh @ replicate 8 0 @ ?body"])
      (use n in \<open>simp_all add: header_bytes_def unat_of_nat\<close>)
  have g3: "getUint32 ?v 12 = Inr 128"
    unfolding getUint32_def
    by (subst read_u32_at [where pre = "?m @ ?u1 @ ?un" and w = 128
          and post = "?uw @ ?uh @ replicate 8 0 @ ?body"])
      (simp_all add: header_bytes_def)
  have g4: "getUint32 ?v 16 = Inr w"
    unfolding getUint32_def
    by (subst read_u32_at [where pre = "?m @ ?u1 @ ?un @ ?ud" and w = "of_nat w"
          and post = "?uh @ replicate 8 0 @ ?body"])
      (use w in \<open>simp_all add: header_bytes_def unat_of_nat\<close>)
  have g5: "getUint32 ?v 20 = Inr h"
    unfolding getUint32_def
    by (subst read_u32_at [where pre = "?m @ ?u1 @ ?un @ ?ud @ ?uw" and w = "of_nat h"
          and post = "replicate 8 0 @ ?body"])
      (use h in \<open>simp_all add: header_bytes_def unat_of_nat\<close>)
  have k: "read_keypoints ?v HEADER_SIZE 128 (20 + 128 * 4) ?n = Inr (map stored_keypoint kps)"
    by (rule read_keypoints_at) (use d in \<open>simp_all add: HEADER_SIZE_def\<close>)
  show ?thesis
    unfolding loadBinary_def using m g1 g2 g3 g4 g5 k by simp
qed

lemma roundtrip_stored:
  assumes "\<forall>kp \<in> set kps. length (kp_descriptor kp) = 128"
    and "length kps < 2 ^ 32" and "w < 2 ^ 32" and "h < 2 ^ 32"
  shows "bindE (serializeBinary kps w h) loadBinary
         = Inr \<lparr>lf_keypoints = map stored_keypoint kps, lf_width = w, lf_height = h,
              lf_version = 1\<rparr>"
proof -
  have l: "loadBinary (header_bytes (length (map stored_keypoint kps)) w h
             @ concat (map kp_bytes (map stored_keypoint kps)))
           = Inr \<lparr>lf_keypoints = map stored_keypoint (map stored_keypoint kps), lf_width = w,
                lf_height = h, lf_version = 1\<rparr>"
    by (rule loadBinary_bytes) (use assms in simp_all)
  show ?thesis
    using l by (simp add: serializeBinary_bytes [OF assms(1)] comp_def)
qed

lemma u32_wrap: "(4294967296 :: 32 word) = 0"
proof -
  have "(4294967296 :: 32 word) = of_nat (2 ^ 32)" by simp
  also have "\<dots> = 0" by (simp only: word_of_nat_eq_0_iff) simp
  finally show ?thesis .
qed

lemma header_bytes_wrap: "header_bytes n 4294967296 h = header_bytes n 0 h"
  by (simp add: header_bytes_def u32_wrap)

text \<open>
  Claim C9, as amended. For every keypoint list with 128-component descriptors (float
  fields given by their binary32 patterns, the octave a 32-bit integer) and every width and
  height below \<open>2^32\<close>, \<open>loadBinary (serializeBinary list w h)\<close> succeeds and returns the
  same count, width and height (and version 1) and, keypoint by keypoint, the identical
  octave and for x, y, scale, orientation and each of the 128 descriptor components the
  bit-identical pattern when it is not a NaN, and a NaN when it is a NaN.
\<close>

theorem C9_binary_roundtrip:
  assumes "\<forall>kp \<in> set kps. length (kp_descriptor kp) = 128"
    and "length kps < 2 ^ 32" and "w < 2 ^ 32" and "h < 2 ^ 32"
  shows "bindE (serializeBinary kps w h) loadBinary
         = Inr \<lparr>lf_keypoints = map stored_keypoint kps, lf_width = w, lf_height = h,
              lf_version = 1\<rparr>
     \<and> length (map stored_keypoint kps) = length kps
     \<and> list_all2 same_keypoint kps (map stored_keypoint kps)"
  using roundtrip_stored [OF assms]
  by (simp add: list_all2_map2 list_all2_same same_stored_keypoint)

theorem C9_binary_roundtrip_witness:
  "length (kp_descriptor sample_keypoint) = 128
   \<and> length [sample_keypoint] < 2 ^ 32 \<and> (640 :: nat) < 2 ^ 32 \<and> (480 :: nat) < 2 ^ 32
   \<and> bindE (serializeBinary [sample_keypoint] 640 480) loadBinary
       = Inr \<lparr>lf_keypoints = [sample_keypoint], lf_width = 640, lf_height = 480,
            lf_version = 1\<rparr>"
  using C9_binary_roundtrip [of "[sample_keypoint]" 640 480]
  by (simp add: sample_keypoint_def stored_keypoint_def number_bits_def is_nan32_def)

text \<open>
  Claim C9 as stated fails in two ways. The width is stored in an unsigned 32-bit field:
  written as \<open>2^32\<close> it is read back as 0. A descriptor component holding the signalling
  NaN \<open>0x7F800001\<close> passes through a Number and comes back as \<open>0x7FC00001\<close>, not
  bit-identical.
\<close>

theorem C9_binary_roundtrip_counterexample:
  "bindE (serializeBinary [sample_keypoint] (2 ^ 32) 480) loadBinary
     = Inr \<lparr>lf_keypoints = [sample_keypoint], lf_width = 0, lf_height = 480, lf_version = 1\<rparr>
   \<and> (0 :: nat) \<noteq> 2 ^ 32
   \<and> bindE (serializeBinary [nan_keypoint] 640 480) loadBinary
     = Inr \<lparr>lf_keypoints = [sample_keypoint\<lparr>kp_descriptor := replicate 128 0x7FC00001\<rparr>],
          lf_width = 640, lf_height = 480, lf_version = 1\<rparr>
   \<and> (0x7FC00001 :: 32 word) \<noteq> 0x7F800001"
proof -
  have s: "stored_keypoint sample_keypoint = sample_keypoint"
    by (simp add: sample_keypoint_def stored_keypoint_def number_bits_def is_nan32_def)
  have n: "stored_keypoint nan_keypoint
           = sample_keypoint\<lparr>kp_descriptor := replicate 128 0x7FC00001\<rparr>"
    by (simp add: nan_keypoint_def sample_keypoint_def stored_keypoint_def number_bits_def
        is_nan32_def)
  have d: "length (kp_descriptor sample_keypoint) = 128" "length (kp_descriptor nan_keypoint) = 128"
    by (simp_all add: sample_keypoint_def nan_keypoint_def)
  have l: "loadBinary (header_bytes (length [sample_keypoint]) 0 480
             @ concat (map kp_bytes [sample_keypoint]))
           = Inr \<lparr>lf_keypoints = map stored_keypoint [sample_keypoint], lf_width = 0,
                lf_height = 480, lf_version = 1\<rparr>"
    by (rule loadBinary_bytes) (simp_all add: d)
  have a: "bindE (serializeBinary [sample_keypoint] (2 ^ 32) 480) loadBinary
     = Inr \<lparr>lf_keypoints = [sample_keypoint], lf_width = 0, lf_height = 480, lf_version = 1\<rparr>"
    using l by (simp add: serializeBinary_bytes d header_bytes_wrap s)
  have b: "bindE (serializeBinary [nan_keypoint] 640 480) loadBinary
     = Inr \<lparr>lf_keypoints = [sample_keypoint\<lparr>kp_descriptor := replicate 128 0x7FC00001\<rparr>],
          lf_width = 640, lf_height = 480, lf_version = 1\<rparr>"
    using roundtrip_stored [of "[nan_keypoint]" 640 480] by (simp add: d n)
  show ?thesis using a b by simp
qed

end
